(* ===== verification/Prelude.thy ===== *)
theory Prelude
  imports Main "HOL-Library.Word"
begin

text \<open>
  Shared vocabulary of the development. JavaScript values that reach the poller come out
  of JSON responses, so they are modelled by the datatype \<open>json\<close>; a property that is
  absent reads as \<open>undefined\<close>, which is \<open>None\<close> of type \<open>jsprop\<close>. The exceptions the
  module can raise or observe are the constructors of \<open>js_error\<close>. Equality of property
  values (lodash's SameValueZero and JavaScript's \<open>===\<close>) is \<open>same_value\<close>: every
  object or array the poller compares comes from a separate \<open>JSON.parse\<close> of a
  separate response, so two composite values are never the same reference.
\<close>

named_theorems js_simps "evaluation rules of the JavaScript runtime model"

datatype json =
    JNull
  | JBool bool
  | JNum int
  | JStr string
  | JArr "json list"
  | JObj "(string \<times> json) list"

type_synonym jsprop = "json option"

abbreviation jstr :: "string \<Rightarrow> jsprop" where
  "jstr s \<equiv> Some (JStr s)"

datatype js_error = TypeError | SyntaxError | FetchError | ListenerError

fun is_composite :: "json \<Rightarrow> bool" where
  "is_composite (JArr _) = True"
| "is_composite (JObj _) = True"
| "is_composite _ = False"

definition scalar :: "jsprop \<Rightarrow> bool" where
  "scalar v \<longleftrightarrow> (case v of None \<Rightarrow> True | Some j \<Rightarrow> \<not> is_composite j)"

definition same_value :: "jsprop \<Rightarrow> jsprop \<Rightarrow> bool" where
  "same_value a b \<longleftrightarrow> scalar a \<and> a = b"

lemma scalar_simps [simp, js_simps]:
  "scalar None"
  "scalar (Some JNull)"
  "scalar (Some (JBool b))"
  "scalar (Some (JNum n))"
  "scalar (Some (JStr s))"
  "\<not> scalar (Some (JArr xs))"
  "\<not> scalar (Some (JObj kvs))"
  by (simp_all add: scalar_def)

lemma same_value_eq [dest]: "same_value a b \<Longrightarrow> a = b"
  by (simp add: same_value_def)

lemma same_value_sym: "same_value a b \<longleftrightarrow> same_value b a"
  by (auto simp: same_value_def)

lemma same_value_refl [simp]: "same_value a a \<longleftrightarrow> scalar a"
  by (simp add: same_value_def)

lemma same_value_scalar_iff [simp]: "scalar a \<Longrightarrow> same_value a b \<longleftrightarrow> a = b"
  by (simp add: same_value_def)

lemma same_value_simps [simp, js_simps]:
  "same_value None b \<longleftrightarrow> b = None"
  "same_value (Some (JStr s)) b \<longleftrightarrow> b = Some (JStr s)"
  "same_value (Some (JNum n)) b \<longleftrightarrow> b = Some (JNum n)"
  by (auto simp: same_value_def)

subsection \<open>Generic lemmas on the list and sum combinators the components share\<close>

lemma list_ex_same_value_iff:
  "list_ex (same_value v) xs \<longleftrightarrow> scalar v \<and> v \<in> set xs"
  by (auto simp: list_ex_iff same_value_def)

lemma find_append_eq:
  "find P (xs @ ys) = (case find P xs of None \<Rightarrow> find P ys | Some x \<Rightarrow> Some x)"
  by (induction xs) auto

lemma sum_case_Inr_iff [simp]:
  "((case r of Inl e \<Rightarrow> Inl e | Inr x \<Rightarrow> f x) = Inr y) \<longleftrightarrow> (\<exists>x. r = Inr x \<and> f x = Inr y)"
  by (cases r) auto

end
