(* ===== verification/Js_Runtime.thy ===== *)
theory Js_Runtime
  imports Prelude
begin

text \<open>
  The parts of the JavaScript platform and of lodash that events.js calls, modelled from
  their specifications (ECMAScript, WebIDL, HTML timers, lodash 4 documentation): reading a
  property of a parsed JSON value, \<open>_.differenceBy\<close>, \<open>Number.parseInt\<close> and the
  printing of an integer, the conversion of a timer delay, and \<open>Promise.all\<close> over three
  promises. None of this is code of the repository; it is the semantics the code relies on.
\<close>

subsection \<open>Property access on a parsed JSON value\<close>

text \<open>
  \<open>v.name\<close>: on \<open>null\<close> a TypeError; on an object the value of the last occurrence of the
  key (\<open>JSON.parse\<close> keeps the last duplicate); on any other value \<open>undefined\<close>.
\<close>

fun get_prop :: "json \<Rightarrow> string \<Rightarrow> js_error + jsprop" where
  "get_prop JNull k = Inl TypeError"
| "get_prop (JObj kvs) k = Inr (map_of (rev kvs) k)"
| "get_prop _ k = Inr None"

lemma get_prop_eq:
  "get_prop j k = (if j = JNull then Inl TypeError
                   else Inr (case j of JObj kvs \<Rightarrow> map_of (rev kvs) k | _ \<Rightarrow> None))"
  by (cases j) auto

subsection \<open>lodash \<open>_.differenceBy(array, values, iteratee)\<close>\<close>

text \<open>
  The elements of \<open>array\<close>, in order and with repetitions, whose iteratee value is not
  SameValueZero to the iteratee value of any element of \<open>values\<close>.
\<close>

fun differenceBy :: "('a \<Rightarrow> jsprop) \<Rightarrow> 'a list \<Rightarrow> 'a list \<Rightarrow> 'a list" where
  "differenceBy k [] vals = []"
| "differenceBy k (x # xs) vals =
     (if list_ex (same_value (k x)) (map k vals) then differenceBy k xs vals
      else x # differenceBy k xs vals)"

lemma differenceBy_filter:
  "differenceBy k xs vals = filter (\<lambda>x. \<not> (scalar (k x) \<and> k x \<in> k ` set vals)) xs"
  by (induction xs) (auto simp: list_ex_same_value_iff)

lemma differenceBy_Nil_iff:
  "differenceBy k xs vals = [] \<longleftrightarrow> (\<forall>x \<in> set xs. scalar (k x) \<and> k x \<in> k ` set vals)"
  by (auto simp: differenceBy_filter filter_empty_conv)

lemma set_differenceBy: "set (differenceBy k xs vals) \<subseteq> set xs"
  by (auto simp: differenceBy_filter)

subsection \<open>Numbers: \<open>Number.parseInt\<close> and integer printing\<close>

text \<open>
  The numbers the module keeps (the update interval) are \<open>undefined\<close>, \<open>NaN\<close> or an
  integer. Doubles beyond \<open>2 ^ 53\<close> and the exponent notation of \<open>toString\<close> from
  \<open>10 ^ 21\<close> on are outside the model.
\<close>

datatype jsnum = Undefined | NaN | Num int

fun times_1000 :: "jsnum \<Rightarrow> jsnum" where
  "times_1000 (Num n) = Num (n * 1000)"
| "times_1000 _ = NaN"

definition js_whitespace :: "char \<Rightarrow> bool" where
  "js_whitespace c \<longleftrightarrow> of_char c \<in> {9, 10, 11, 12, 13, 32, 160 :: nat}"

fun digit_value :: "nat \<Rightarrow> char \<Rightarrow> nat option" where
  "digit_value r c =
     (let n = of_char c :: nat;
          v = (if 48 \<le> n \<and> n \<le> 57 then Some (n - 48)
               else if 97 \<le> n \<and> n \<le> 122 then Some (n - 87)
               else if 65 \<le> n \<and> n \<le> 90 then Some (n - 55) else None)
      in (case v of Some d \<Rightarrow> if d < r then Some d else None | None \<Rightarrow> None))"

fun digit_prefix :: "nat \<Rightarrow> string \<Rightarrow> nat list" where
  "digit_prefix r [] = []"
| "digit_prefix r (c # cs) =
     (case digit_value r c of None \<Rightarrow> [] | Some d \<Rightarrow> d # digit_prefix r cs)"

definition digits_to_nat :: "nat \<Rightarrow> nat list \<Rightarrow> nat" where
  "digits_to_nat r ds = foldl (\<lambda>acc d. acc * r + d) 0 ds"

text \<open>
  ECMAScript \<open>parseInt(string)\<close> with the radix omitted: strip leading white space (the
  white space and line terminators of ECMAScript that fit in one character here: tab, LF,
  VT, FF, CR, space and no-break space), read
  a sign, strip a \<open>0x\<close>/\<open>0X\<close> prefix (radix 16) or use radix 10, read the longest
  prefix of digits; no digit at all is \<open>NaN\<close>. The argument is \<open>ToString\<close> of the
  value, so an absent value (\<open>None\<close>) is the string \<open>"undefined"\<close>.
\<close>

definition strip_sign :: "string \<Rightarrow> bool \<times> string" where
  "strip_sign s =
     (case s of
        c # cs \<Rightarrow> if c = CHR ''-'' then (True, cs) else if c = CHR ''+'' then (False, cs)
                  else (False, s)
      | [] \<Rightarrow> (False, []))"

definition radix_prefix :: "string \<Rightarrow> nat \<times> string" where
  "radix_prefix s =
     (case s of
        c0 # c1 # cs \<Rightarrow>
          if c0 = CHR ''0'' \<and> (c1 = CHR ''x'' \<or> c1 = CHR ''X'') then (16, cs) else (10, s)
      | _ \<Rightarrow> (10, s))"

definition parseInt_string :: "string \<Rightarrow> jsnum" where
  "parseInt_string s0 =
     (case strip_sign (dropWhile js_whitespace s0) of
        (neg, s2) \<Rightarrow>
          (case radix_prefix s2 of
             (r, s3) \<Rightarrow>
               (let ds = digit_prefix r s3
                in if ds = [] then NaN
                   else Num ((if neg then -1 else 1) * int (digits_to_nat r ds)))))"

definition parseInt :: "string option \<Rightarrow> jsnum" where
  "parseInt v = parseInt_string (case v of None \<Rightarrow> ''undefined'' | Some s \<Rightarrow> s)"

fun nat_to_string :: "nat \<Rightarrow> string" where
  "nat_to_string n =
     (if n < 10 then [char_of (48 + n)]
      else nat_to_string (n div 10) @ [char_of (48 + n mod 10)])"

declare nat_to_string.simps [simp del]

definition int_to_string :: "int \<Rightarrow> string" where
  "int_to_string i =
     (if i < 0 then CHR ''-'' # nat_to_string (nat (- i)) else nat_to_string (nat i))"

subsubsection \<open>Printing and parsing an integer agree\<close>

lemma digit_value_digit: "(d::nat) < 10 \<Longrightarrow> digit_value 10 (char_of (48 + d)) = Some d"
  by (simp add: Let_def of_char_of)

lemma nat_to_string_digits: "\<forall>c \<in> set (nat_to_string n). digit_value 10 c \<noteq> None"
proof (induction n rule: nat_to_string.induct)
  case (1 n)
  then show ?case
    by (subst nat_to_string.simps) (auto simp: digit_value_digit simp del: digit_value.simps)
qed

lemma digit_prefix_append:
  "\<forall>c \<in> set xs. digit_value r c \<noteq> None \<Longrightarrow>
   digit_prefix r (xs @ ys) = digit_prefix r xs @ digit_prefix r ys"
  by (induction xs) (auto simp del: digit_value.simps)

lemma digits_to_nat_snoc: "digits_to_nat r (xs @ [d]) = digits_to_nat r xs * r + d"
  by (simp add: digits_to_nat_def)

lemma nat_to_string_value: "digits_to_nat 10 (digit_prefix 10 (nat_to_string n)) = n"
proof (induction n rule: nat_to_string.induct)
  case (1 n)
  show ?case
  proof (cases "n < 10")
    case True
    then show ?thesis
      by (subst nat_to_string.simps) (simp add: digit_value_digit digits_to_nat_def del: digit_value.simps)
  next
    case False
    then have "digit_prefix 10 (nat_to_string n) =
                 digit_prefix 10 (nat_to_string (n div 10)) @ [n mod 10]"
      by (subst nat_to_string.simps)
         (simp add: digit_prefix_append nat_to_string_digits digit_value_digit del: digit_value.simps)
    with False "1.IH" show ?thesis by (simp add: digits_to_nat_snoc)
  qed
qed

lemma nat_to_string_nonempty: "nat_to_string n \<noteq> []"
  by (subst nat_to_string.simps) simp

lemma digit10_range: "digit_value 10 c \<noteq> None \<Longrightarrow> 48 \<le> (of_char c :: nat) \<and> (of_char c :: nat) \<le> 57"
  by (auto simp: Let_def split: if_splits)

lemma digit10_not_special:
  assumes "digit_value 10 c \<noteq> None"
  shows "\<not> js_whitespace c \<and> c \<noteq> CHR ''-'' \<and> c \<noteq> CHR ''+'' \<and> c \<noteq> CHR ''x'' \<and> c \<noteq> CHR ''X''"
  using digit10_range [OF assms] by (auto simp: js_whitespace_def)

lemma parseInt_string_digits:
  assumes "xs \<noteq> []" and "\<forall>c \<in> set xs. digit_value 10 c \<noteq> None"
  shows "parseInt_string xs = Num (int (digits_to_nat 10 (digit_prefix 10 xs)))"
    and "parseInt_string (CHR ''-'' # xs) = Num (- int (digits_to_nat 10 (digit_prefix 10 xs)))"
proof -
  obtain c cs where xs: "xs = c # cs" using assms(1) by (cases xs) auto
  have c: "digit_value 10 c \<noteq> None" using assms(2) xs by simp
  have cs: "\<forall>c' \<in> set cs. digit_value 10 c' \<noteq> None" using assms(2) xs by simp
  have ne: "digit_prefix 10 xs \<noteq> []" using c xs by (auto simp del: digit_value.simps)
  have ws: "dropWhile js_whitespace xs = xs"
    using digit10_not_special [OF c] xs by simp
  have sg: "strip_sign xs = (False, xs)"
    using digit10_not_special [OF c] xs by (simp add: strip_sign_def)
  have rp: "radix_prefix xs = (10, xs)"
    using digit10_not_special cs xs by (auto simp: radix_prefix_def split: list.splits simp del: digit_value.simps)
  show "parseInt_string xs = Num (int (digits_to_nat 10 (digit_prefix 10 xs)))"
    using ws sg rp ne by (simp add: parseInt_string_def)
  show "parseInt_string (CHR ''-'' # xs) = Num (- int (digits_to_nat 10 (digit_prefix 10 xs)))"
    using rp ne by (simp add: parseInt_string_def strip_sign_def js_whitespace_def)
qed

lemma parseInt_int_to_string: "parseInt (Some (int_to_string i)) = Num i"
  using parseInt_string_digits [OF nat_to_string_nonempty nat_to_string_digits, of "nat (- i)"]
        parseInt_string_digits [OF nat_to_string_nonempty nat_to_string_digits, of "nat i"]
  by (simp add: parseInt_def int_to_string_def nat_to_string_value)

subsection \<open>Timer delays\<close>

text \<open>
  \<open>setInterval(handler, timeout)\<close> converts \<open>timeout\<close> to a WebIDL \<open>long\<close>: \<open>NaN\<close>
  and \<open>undefined\<close> become 0, an integer is taken modulo \<open>2 ^ 32\<close> as a signed 32-bit
  value; the HTML timer steps then raise a negative delay to 0. The 32-bit wrap-around is
  written as \<open>sint\<close> of a \<open>32 word\<close>.
\<close>

definition webidl_long :: "jsnum \<Rightarrow> int" where
  "webidl_long x = (case x of Num n \<Rightarrow> sint (word_of_int n :: 32 word) | _ \<Rightarrow> 0)"

definition timer_delay :: "jsnum \<Rightarrow> int" where
  "timer_delay x = max 0 (webidl_long x)"

lemma timer_delay_bounds: "0 \<le> timer_delay x \<and> timer_delay x \<le> 2147483647"
proof -
  have "sint (w :: 32 word) \<le> 2147483647" for w
    using sint_lt [of w] by simp
  then show ?thesis by (auto simp: timer_delay_def webidl_long_def split: jsnum.splits)
qed

lemma timer_delay_Num_in_range:
  "0 \<le> n \<Longrightarrow> n < 2147483648 \<Longrightarrow> timer_delay (Num n) = n"
  by (simp add: timer_delay_def webidl_long_def sint_sbintrunc' signed_take_bit_int_eq_self)

text \<open>The WebIDL conversion reads the interval modulo \<open>2 ^ 32\<close> as a signed 32-bit
  integer; a delay that comes out negative is clamped to 0.\<close>

lemma sint_word_of_int_32:
  "sint (word_of_int n :: 32 word) = (if n mod 2 ^ 32 < 2 ^ 31 then n mod 2 ^ 32 else n mod 2 ^ 32 - 2 ^ 32)"
proof -
  have "sint (word_of_int n :: 32 word) = (n + 2 ^ 31) mod 2 ^ 32 - 2 ^ 31"
    by (simp add: sint_sbintrunc' signed_take_bit_eq_take_bit_shift take_bit_eq_mod)
  also have "(n + 2 ^ 31) mod 2 ^ 32 = (n mod 2 ^ 32 + 2 ^ 31) mod (2 ^ 32 :: int)"
    by (simp add: mod_add_left_eq)
  also have "\<dots> = (if n mod 2 ^ 32 < 2 ^ 31 then n mod 2 ^ 32 + 2 ^ 31 else n mod 2 ^ 32 - 2 ^ 31)"
  proof -
    have b: "0 \<le> n mod 2 ^ 32" "n mod 2 ^ 32 < (2 ^ 32 :: int)" by simp_all
    show ?thesis
    proof (cases "n mod 2 ^ 32 < 2 ^ 31")
      case True
      then show ?thesis using b by (simp add: mod_pos_pos_trivial)
    next
      case False
      define w where "w = n mod 2 ^ 32 - 2 ^ 31"
      have w: "0 \<le> w" "w < 2 ^ 32" using False b by (simp_all add: w_def)
      have "(n mod 2 ^ 32 + 2 ^ 31) mod (2 ^ 32 :: int) = (w + 2 ^ 32) mod 2 ^ 32"
        by (simp add: w_def add.commute)
      also have "\<dots> = w" using w by (simp add: mod_pos_pos_trivial)
      finally have "(n mod 2 ^ 32 + 2 ^ 31) mod (2 ^ 32 :: int) = n mod 2 ^ 32 + 2 ^ 31 - 2 ^ 32"
        by (simp add: w_def)
      then show ?thesis using False by simp
    qed
  qed
  finally show ?thesis by auto
qed

lemma timer_delay_Num:
  "timer_delay (Num n) = (if n mod 2 ^ 32 < 2 ^ 31 then n mod 2 ^ 32 else 0)"
proof -
  have "n mod 2 ^ 32 < (2 ^ 32 :: int)" by simp
  then show ?thesis
    by (simp add: timer_delay_def webidl_long_def sint_word_of_int_32)
qed

subsection \<open>\<open>Promise.all\<close> over three promises\<close>

text \<open>
  The settled results of the three requests, as values of \<open>js_error + 'a\<close>: the combined
  promise resolves with the triple when all three resolve and rejects otherwise. Which
  rejection it carries depends on timing; the poller only logs it, so the model takes the
  first in array order.
\<close>

definition promise_all3 ::
  "('e + 'a) \<Rightarrow> ('e + 'b) \<Rightarrow> ('e + 'c) \<Rightarrow> 'e + ('a \<times> 'b \<times> 'c)" where
  "promise_all3 a b c =
     (case a of Inl e \<Rightarrow> Inl e | Inr x \<Rightarrow>
      (case b of Inl e \<Rightarrow> Inl e | Inr y \<Rightarrow>
       (case c of Inl e \<Rightarrow> Inl e | Inr z \<Rightarrow> Inr (x, y, z))))"

lemma promise_all3_Inr_iff [simp]:
  "promise_all3 a b c = Inr (x, y, z) \<longleftrightarrow> a = Inr x \<and> b = Inr y \<and> c = Inr z"
  by (auto simp: promise_all3_def split: sum.splits)

lemma promise_all3_Inl_iff:
  "(\<exists>e. promise_all3 a b c = Inl e) \<longleftrightarrow> isl a \<or> isl b \<or> isl c"
  by (auto simp: promise_all3_def split: sum.splits)

end
