(* ===== verification/Merge.thy ===== *)
theory Merge
  imports Js_Runtime
begin

text \<open>
  The snapshot merger of events.js, the body of the \<open>then\<close> handler of \<open>cache_update\<close>
  up to the cache rotation (lines 66--114): the status records' \<open>data\<close> strings are
  parsed, the four buckets of the grouped response are concatenated, and every event
  whose \<open>resource_arn\<close> equals a status record's \<open>arn\<close> gets \<open>detail.idle_state\<close>
  from that record, idle records first, then running records. \<open>JSON.parse\<close> is the
  parameter \<open>json_parse\<close> (\<open>None\<close> is a SyntaxError); every theorem holds for any parser.
\<close>

subsection \<open>Data\<close>

record detail =
  idle_state :: jsprop
  degraded :: jsprop

record event =
  resource_arn :: jsprop
  alarm_id :: jsprop
  detail :: "detail option"

record 'd status =
  arn :: jsprop
  data :: 'd

record set_status =
  st_idle :: "event list"
  st_degraded :: "event list"
  st_down :: "event list"
  st_running :: "event list"

type_synonym json_parser = "string \<Rightarrow> json option"

subsection \<open>Operations\<close>

text \<open>\<open>idle.data = JSON.parse(idle.data)\<close> inside \<open>idleStatus.map(...)\<close> (lines 66--74).\<close>

definition parse_status :: "json_parser \<Rightarrow> string status \<Rightarrow> js_error + json status" where
  "parse_status json_parse r =
     (case json_parse (data r) of
        None \<Rightarrow> Inl SyntaxError
      | Some j \<Rightarrow> Inr \<lparr>arn = arn r, data = j\<rparr>)"

fun parse_statuses ::
  "json_parser \<Rightarrow> string status list \<Rightarrow> js_error + json status list" where
  "parse_statuses json_parse [] = Inr []"
| "parse_statuses json_parse (r # rs) =
     (case parse_status json_parse r of
        Inl e \<Rightarrow> Inl e
      | Inr r' \<Rightarrow> (case parse_statuses json_parse rs of
                    Inl e \<Rightarrow> Inl e
                  | Inr rs' \<Rightarrow> Inr (r' # rs')))"

text \<open>\<open>setStatus.idle.concat(setStatus.degraded).concat(...down).concat(...running)\<close>.\<close>

definition concat_sets :: "set_status \<Rightarrow> event list" where
  "concat_sets s = st_idle s @ st_degraded s @ st_down s @ st_running s"

text \<open>\<open>set.detail.idle_state = v\<close>: a TypeError when \<open>detail\<close> is null or undefined.\<close>

definition assign_idle_state :: "event \<Rightarrow> jsprop \<Rightarrow> js_error + event" where
  "assign_idle_state e v =
     (case detail e of
        None \<Rightarrow> Inl TypeError
      | Some d \<Rightarrow> Inr (e\<lparr>detail := Some (d\<lparr>idle_state := v\<rparr>)\<rparr>))"

text \<open>The inner loop over \<open>sets\<close> for one status record (lines 92--98 and 106--112).\<close>

fun enrich_with :: "json status \<Rightarrow> event list \<Rightarrow> js_error + event list" where
  "enrich_with st [] = Inr []"
| "enrich_with st (e # es) =
     (case (if same_value (resource_arn e) (arn st)
            then (case get_prop (data st) ''idle_state'' of
                    Inl err \<Rightarrow> Inl err
                  | Inr v \<Rightarrow> assign_idle_state e v)
            else Inr e) of
        Inl err \<Rightarrow> Inl err
      | Inr e' \<Rightarrow> (case enrich_with st es of
                   Inl err \<Rightarrow> Inl err
                 | Inr es' \<Rightarrow> Inr (e' # es')))"

text \<open>The outer loop over the status records (lines 89--99 and 103--113).\<close>

fun enrich_all :: "json status list \<Rightarrow> event list \<Rightarrow> js_error + event list" where
  "enrich_all [] es = Inr es"
| "enrich_all (st # sts) es =
     (case enrich_with st es of
        Inl err \<Rightarrow> Inl err
      | Inr es' \<Rightarrow> enrich_all sts es')"

text \<open>The loop with its guard \<open>if (idles.length)\<close> (lines 88--100 and 102--114).\<close>

definition enrich_loop :: "json status list \<Rightarrow> event list \<Rightarrow> js_error + event list" where
  "enrich_loop sts es = (if length sts \<noteq> 0 then enrich_all sts es else Inr es)"

text \<open>The whole merge: the triple that becomes the current snapshot, or the exception.\<close>

definition merge_snapshot ::
  "json_parser \<Rightarrow> set_status \<Rightarrow> string status list \<Rightarrow> string status list \<Rightarrow>
   js_error + (event list \<times> json status list \<times> json status list)" where
  "merge_snapshot json_parse setStatus idleStatus runningStatus =
     (case parse_statuses json_parse idleStatus of
        Inl err \<Rightarrow> Inl err
      | Inr idles \<Rightarrow>
     (case parse_statuses json_parse runningStatus of
        Inl err \<Rightarrow> Inl err
      | Inr running \<Rightarrow>
     (let sets = concat_sets setStatus in
     (case enrich_loop idles sets of
        Inl err \<Rightarrow> Inl err
      | Inr sets1 \<Rightarrow>
     (case enrich_loop running sets1 of
        Inl err \<Rightarrow> Inl err
      | Inr sets2 \<Rightarrow> Inr (sets2, idles, running))))))"

subsection \<open>Abstract specification of the enrichment\<close>

text \<open>
  What a merge promises: the state an event ends with comes from the \<^emph>\<open>last\<close> status
  record whose \<open>arn\<close> matches it (every later match overwrites the earlier ones), and
  every event whose record matches needs a \<open>detail\<close> object and a non-null \<open>data\<close>.
\<close>

definition idle_state_of :: "json \<Rightarrow> jsprop" where
  "idle_state_of j = (case j of JObj kvs \<Rightarrow> map_of (rev kvs) ''idle_state'' | _ \<Rightarrow> None)"

definition set_idle_state :: "event \<Rightarrow> jsprop \<Rightarrow> event" where
  "set_idle_state e v = e\<lparr>detail := map_option (\<lambda>d. d\<lparr>idle_state := v\<rparr>) (detail e)\<rparr>"

definition last_match :: "json status list \<Rightarrow> jsprop \<Rightarrow> json status option" where
  "last_match sts r = find (\<lambda>st. same_value r (arn st)) (rev sts)"

definition enrich_spec :: "json status list \<Rightarrow> event \<Rightarrow> event" where
  "enrich_spec sts e =
     (case last_match sts (resource_arn e) of
        None \<Rightarrow> e
      | Some st \<Rightarrow> set_idle_state e (idle_state_of (data st)))"

definition enrich_ok :: "json status list \<Rightarrow> event list \<Rightarrow> bool" where
  "enrich_ok sts es \<longleftrightarrow>
     (\<forall>st \<in> set sts. \<forall>e \<in> set es.
        same_value (resource_arn e) (arn st) \<longrightarrow> data st \<noteq> JNull \<and> detail e \<noteq> None)"

subsection \<open>The loops against the specification\<close>

definition enrich_step :: "json status \<Rightarrow> event \<Rightarrow> event" where
  "enrich_step st e =
     (if same_value (resource_arn e) (arn st) then set_idle_state e (idle_state_of (data st)) else e)"

lemma get_idle_state_eq:
  "get_prop j ''idle_state'' = (if j = JNull then Inl TypeError else Inr (idle_state_of j))"
  by (cases j) (auto simp: idle_state_of_def)

lemma assign_idle_state_eq:
  "assign_idle_state e v = (if detail e = None then Inl TypeError else Inr (set_idle_state e v))"
  by (auto simp: assign_idle_state_def set_idle_state_def split: option.splits)

lemma set_idle_state_frame [simp]:
  "resource_arn (set_idle_state e v) = resource_arn e"
  "alarm_id (set_idle_state e v) = alarm_id e"
  "map_option degraded (detail (set_idle_state e v)) = map_option degraded (detail e)"
  "detail (set_idle_state e v) = None \<longleftrightarrow> detail e = None"
  "set_idle_state (set_idle_state e v) w = set_idle_state e w"
  by (simp_all add: set_idle_state_def option.map_comp comp_def)

lemma set_idle_state_Some:
  "detail e = Some d \<Longrightarrow> detail (set_idle_state e v) = Some (d\<lparr>idle_state := v\<rparr>)"
  by (simp add: set_idle_state_def)

lemma enrich_step_frame [simp]:
  "resource_arn (enrich_step st e) = resource_arn e"
  "(\<exists>d. detail (enrich_step st e) = Some d) \<longleftrightarrow> (\<exists>d. detail e = Some d)"
  by (auto simp: enrich_step_def set_idle_state_def)

lemma enrich_spec_Nil [simp]: "enrich_spec [] = (\<lambda>e. e)"
  by (simp add: enrich_spec_def last_match_def fun_eq_iff)

lemma enrich_spec_frame [simp]:
  "resource_arn (enrich_spec sts e) = resource_arn e"
  "alarm_id (enrich_spec sts e) = alarm_id e"
  "map_option degraded (detail (enrich_spec sts e)) = map_option degraded (detail e)"
  by (simp_all add: enrich_spec_def split: option.splits)

lemma enrich_spec_detail [simp]:
  "(\<exists>d. detail (enrich_spec sts e) = Some d) \<longleftrightarrow> (\<exists>d. detail e = Some d)"
  by (auto simp: enrich_spec_def set_idle_state_def split: option.splits)

lemma enrich_with_eq:
  "enrich_with st es =
     (if \<forall>e \<in> set es. same_value (resource_arn e) (arn st) \<longrightarrow> data st \<noteq> JNull \<and> detail e \<noteq> None
      then Inr (map (enrich_step st) es) else Inl TypeError)"
  by (induction es) (auto simp: get_idle_state_eq assign_idle_state_eq enrich_step_def)

lemma enrich_spec_step:
  "enrich_spec sts (enrich_step st e) = enrich_spec (st # sts) e"
  by (auto simp: enrich_spec_def enrich_step_def last_match_def find_append_eq
           split: option.splits)

lemma enrich_ok_Cons:
  "enrich_ok (st # sts) es \<longleftrightarrow>
     (\<forall>e \<in> set es. same_value (resource_arn e) (arn st) \<longrightarrow> data st \<noteq> JNull \<and> detail e \<noteq> None)
     \<and> enrich_ok sts (map (enrich_step st) es)"
  by (auto simp: enrich_ok_def)

lemma enrich_ok_map_spec: "enrich_ok sts (map (enrich_spec sts') es) = enrich_ok sts es"
  by (auto simp: enrich_ok_def)

lemma enrich_all_eq:
  "enrich_all sts es =
     (if enrich_ok sts es then Inr (map (enrich_spec sts) es) else Inl TypeError)"
proof (induction sts arbitrary: es)
  case Nil
  show ?case by (simp add: enrich_ok_def)
next
  case (Cons st sts)
  then show ?case
    by (auto simp: enrich_with_eq enrich_ok_Cons enrich_spec_step)
qed

lemma enrich_loop_eq: "enrich_loop sts es = enrich_all sts es"
  by (simp add: enrich_loop_def)

lemma parse_statuses_Inr_iff:
  "parse_statuses p rs = Inr rs' \<longleftrightarrow>
     list_all2 (\<lambda>r r'. arn r' = arn r \<and> p (data r) = Some (data r')) rs rs'"
proof (induction rs arbitrary: rs')
  case Nil
  then show ?case by auto
next
  case (Cons r rs)
  then show ?case
    by (cases rs') (auto simp: parse_status_def list_all2_Cons1 split: option.splits sum.splits)
qed

lemma parse_statuses_Inl:
  "parse_statuses p rs = Inl e \<longleftrightarrow> e = SyntaxError \<and> (\<exists>r \<in> set rs. p (data r) = None)"
  by (induction rs) (auto simp: parse_status_def split: option.splits sum.splits)

lemma parse_statuses_Inr_parsed:
  "parse_statuses p rs = Inr rs' \<Longrightarrow> r \<in> set rs \<Longrightarrow> p (data r) \<noteq> None"
  by (induction rs arbitrary: rs') (auto simp: parse_status_def split: option.splits sum.splits)

lemma enrich_spec_Some:
  "detail e = Some d \<Longrightarrow>
   detail (enrich_spec sts e) =
     Some (d\<lparr>idle_state := (case last_match sts (resource_arn e) of
                               None \<Rightarrow> idle_state d | Some st \<Rightarrow> idle_state_of (data st))\<rparr>)"
  by (auto simp: enrich_spec_def set_idle_state_Some split: option.splits)

lemmas merge_unfold = merge_snapshot_def enrich_loop_eq enrich_all_eq enrich_ok_map_spec

lemma merge_snapshot_eq:
  "merge_snapshot p s idleStatus runningStatus =
     (case parse_statuses p idleStatus of
        Inl err \<Rightarrow> Inl err
      | Inr idles \<Rightarrow>
     (case parse_statuses p runningStatus of
        Inl err \<Rightarrow> Inl err
      | Inr running \<Rightarrow>
        if enrich_ok idles (concat_sets s) \<and> enrich_ok running (concat_sets s)
        then Inr (map (enrich_spec running \<circ> enrich_spec idles) (concat_sets s), idles, running)
        else Inl TypeError))"
  by (auto simp: merge_unfold Let_def split: sum.splits if_splits)

lemma merge_snapshot_Inr:
  "merge_snapshot p s idleStatus runningStatus = Inr (sets, idles, running) \<Longrightarrow>
   sets = map (enrich_spec running \<circ> enrich_spec idles) (concat_sets s) \<and>
   parse_statuses p idleStatus = Inr idles \<and> parse_statuses p runningStatus = Inr running"
  by (auto simp: merge_snapshot_eq split: sum.splits if_splits)

lemma merge_snapshot_empty_sets:
  "concat_sets setStatus = [] \<Longrightarrow> parse_statuses p idleStatus = Inr idles \<Longrightarrow>
   parse_statuses p runningStatus = Inr running \<Longrightarrow>
   merge_snapshot p setStatus idleStatus runningStatus = Inr ([], idles, running)"
  by (simp add: merge_snapshot_eq enrich_ok_def)

lemma merge_snapshot_SyntaxError_iff:
  "merge_snapshot p s idleStatus runningStatus = Inl SyntaxError \<longleftrightarrow>
     (\<exists>r \<in> set idleStatus \<union> set runningStatus. p (data r) = None)"
  by (auto simp: merge_snapshot_eq parse_statuses_Inl dest: parse_statuses_Inr_parsed
           split: sum.splits)

subsection \<open>Sample data of the specification's examples\<close>

abbreviation idle_json :: string where "idle_json \<equiv> ''{\"idle_state\":\"IDLE\"}''"
abbreviation running_json :: string where "running_json \<equiv> ''{\"idle_state\":\"RUNNING\"}''"

abbreviation sample_parse :: json_parser where
  "sample_parse \<equiv> (\<lambda>s. if s = idle_json then Some (JObj [(''idle_state'', JStr ''IDLE'')])
                       else if s = running_json then Some (JObj [(''idle_state'', JStr ''RUNNING'')])
                       else None)"

abbreviation sample_detail :: detail where
  "sample_detail \<equiv> \<lparr>idle_state = None, degraded = None\<rparr>"

abbreviation event_r1 :: event where
  "event_r1 \<equiv> \<lparr>resource_arn = jstr ''r1'', alarm_id = jstr ''a1'', detail = Some sample_detail\<rparr>"

abbreviation sets_r1 :: set_status where
  "sets_r1 \<equiv> \<lparr>st_idle = [event_r1], st_degraded = [], st_down = [], st_running = []\<rparr>"

lemmas merge_eval = merge_snapshot_def parse_status_def concat_sets_def enrich_loop_def
  assign_idle_state_def

lemma merge_sample_override:
  "merge_snapshot sample_parse sets_r1 [\<lparr>arn = jstr ''r1'', data = idle_json\<rparr>]
     [\<lparr>arn = jstr ''r1'', data = running_json\<rparr>] =
     Inr ([event_r1\<lparr>detail := Some (sample_detail\<lparr>idle_state := jstr ''RUNNING''\<rparr>)\<rparr>],
          [\<lparr>arn = jstr ''r1'', data = JObj [(''idle_state'', JStr ''IDLE'')]\<rparr>],
          [\<lparr>arn = jstr ''r1'', data = JObj [(''idle_state'', JStr ''RUNNING'')]\<rparr>])"
  by (simp add: merge_eval)

lemma merge_sample_idle:
  "merge_snapshot sample_parse sets_r1 [\<lparr>arn = jstr ''r1'', data = idle_json\<rparr>] [] =
     Inr ([event_r1\<lparr>detail := Some (sample_detail\<lparr>idle_state := jstr ''IDLE''\<rparr>)\<rparr>],
          [\<lparr>arn = jstr ''r1'', data = JObj [(''idle_state'', JStr ''IDLE'')]\<rparr>], [])"
  by (simp add: merge_eval)

subsection \<open>Properties of the merger\<close>

text \<open>C2: the merge computes the abstract enrichment (every event takes its state from the
  last matching status record), or throws exactly where the code throws.\<close>

theorem merge_snapshot_refines:
  "merge_snapshot p s idleStatus runningStatus =
     (case parse_statuses p idleStatus of
        Inl err \<Rightarrow> Inl err
      | Inr idles \<Rightarrow>
     (case parse_statuses p runningStatus of
        Inl err \<Rightarrow> Inl err
      | Inr running \<Rightarrow>
        if enrich_ok idles (concat_sets s) \<and> enrich_ok running (concat_sets s)
        then Inr (map (enrich_spec running \<circ> enrich_spec idles) (concat_sets s), idles, running)
        else Inl TypeError))"
  by (rule merge_snapshot_eq)

theorem merge_snapshot_refines_witness:
  "merge_snapshot sample_parse sets_r1 [\<lparr>arn = jstr ''r1'', data = idle_json\<rparr>] [] =
     Inr ([event_r1\<lparr>detail := Some (sample_detail\<lparr>idle_state := jstr ''IDLE''\<rparr>)\<rparr>],
          [\<lparr>arn = jstr ''r1'', data = JObj [(''idle_state'', JStr ''IDLE'')]\<rparr>], [])"
  using merge_snapshot_refines [of sample_parse sets_r1 "[\<lparr>arn = jstr ''r1'', data = idle_json\<rparr>]" "[]"]
  by (simp add: parse_status_def concat_sets_def enrich_ok_def enrich_spec_def last_match_def
                set_idle_state_def idle_state_of_def)

text \<open>C7: in the merged snapshot an event's \<open>detail.idle_state\<close> comes from the last running
  record with its ARN, else from the last idle record with its ARN, else it is unchanged:
  running data overrides idle data, and among duplicates the last record wins.\<close>

theorem merge_idle_state_precedence:
  assumes "merge_snapshot p s idleStatus runningStatus = Inr (sets, idles, running)"
      and "i < length (concat_sets s)" and "detail (concat_sets s ! i) = Some d"
  shows "detail (sets ! i) =
           Some (d\<lparr>idle_state :=
             (case last_match running (resource_arn (concat_sets s ! i)) of
                Some st \<Rightarrow> idle_state_of (data st)
              | None \<Rightarrow> (case last_match idles (resource_arn (concat_sets s ! i)) of
                          Some st \<Rightarrow> idle_state_of (data st)
                        | None \<Rightarrow> idle_state d))\<rparr>)"
proof -
  from assms(1) have sets: "sets = map (enrich_spec running \<circ> enrich_spec idles) (concat_sets s)"
    by (simp add: merge_snapshot_Inr)
  show ?thesis
    using assms(2,3) by (auto simp: sets enrich_spec_Some split: option.splits)
qed

theorem merge_idle_state_precedence_witness:
  "detail ([event_r1\<lparr>detail := Some (sample_detail\<lparr>idle_state := jstr ''RUNNING''\<rparr>)\<rparr>] ! 0) =
     Some (sample_detail\<lparr>idle_state := jstr ''RUNNING''\<rparr>)"
  using merge_idle_state_precedence [OF merge_sample_override, of 0 sample_detail]
  by (simp add: concat_sets_def last_match_def idle_state_of_def)

text \<open>A status record whose \<open>data\<close> is not valid JSON makes the whole merge throw a
  SyntaxError (and only such a record does): the failure is not isolated to the record.\<close>

theorem merge_parse_failure_aborts:
  "merge_snapshot p s idleStatus runningStatus = Inl SyntaxError \<longleftrightarrow>
     (\<exists>r \<in> set idleStatus \<union> set runningStatus. p (data r) = None)"
  by (rule merge_snapshot_SyntaxError_iff)

theorem merge_parse_failure_aborts_witness:
  "merge_snapshot sample_parse sets_r1
     [\<lparr>arn = jstr ''r1'', data = idle_json\<rparr>, \<lparr>arn = jstr ''r2'', data = ''{bad''\<rparr>] [] =
   Inl SyntaxError"
  using merge_parse_failure_aborts [of sample_parse sets_r1
      "[\<lparr>arn = jstr ''r1'', data = idle_json\<rparr>, \<lparr>arn = jstr ''r2'', data = ''{bad''\<rparr>]" "[]"]
  by simp

text \<open>C20: merging only writes \<open>detail.idle_state\<close>: the events keep the bucket order
  idle, degraded, down, running, their ARNs, alarm ids and \<open>detail.degraded\<close>.\<close>

theorem merge_frame:
  "merge_snapshot p s idleStatus runningStatus = Inr (sets, idles, running) \<Longrightarrow>
   map resource_arn sets = map resource_arn (concat_sets s) \<and>
   map alarm_id sets = map alarm_id (concat_sets s) \<and>
   map (\<lambda>e. map_option degraded (detail e)) sets =
     map (\<lambda>e. map_option degraded (detail e)) (concat_sets s)"
  by (auto dest!: merge_snapshot_Inr)

theorem merge_frame_witness:
  "map alarm_id [event_r1\<lparr>detail := Some (sample_detail\<lparr>idle_state := jstr ''RUNNING''\<rparr>)\<rparr>] =
   map alarm_id (concat_sets sets_r1)"
  using merge_frame [OF merge_sample_override] by simp

end
