(* ===== verification/Detect.thy ===== *)
theory Detect
  imports Merge
begin

text \<open>
  The change detector of events.js (lines 123--136): three passes of
  \<open>_.differenceBy(current, previous, key)\<close> and back, with the keys \<open>alarm_id\<close>,
  \<open>detail.idle_state\<close> and \<open>detail.degraded\<close> tried in this order until one yields a
  non-empty delta; the listeners are called when the final delta is non-empty. The keys are
  lodash property paths, which read \<open>undefined\<close> through a missing \<open>detail\<close>.
\<close>

subsection \<open>Operations\<close>

definition key_alarm_id :: "event \<Rightarrow> jsprop" where
  "key_alarm_id e = alarm_id e"

definition key_idle_state :: "event \<Rightarrow> jsprop" where
  "key_idle_state e = (case detail e of None \<Rightarrow> None | Some d \<Rightarrow> idle_state d)"

definition key_degraded :: "event \<Rightarrow> jsprop" where
  "key_degraded e = (case detail e of None \<Rightarrow> None | Some d \<Rightarrow> degraded d)"

definition detect_changes :: "event list \<Rightarrow> event list \<Rightarrow> event list \<times> event list" where
  "detect_changes current previous =
     (let added = differenceBy key_alarm_id current previous;
          removed = differenceBy key_alarm_id previous current;
          (added, removed) =
            (if length added = 0 \<and> length removed = 0
             then (differenceBy key_idle_state current previous,
                   differenceBy key_idle_state previous current)
             else (added, removed));
          (added, removed) =
            (if length added = 0 \<and> length removed = 0
             then (differenceBy key_degraded current previous,
                   differenceBy key_degraded previous current)
             else (added, removed))
      in (added, removed))"

text \<open>The guard of the notification loop, \<open>added.length || removed.length\<close> (line 136).\<close>

definition has_changes :: "event list \<times> event list \<Rightarrow> bool" where
  "has_changes d \<longleftrightarrow> (case d of (added, removed) \<Rightarrow> length added \<noteq> 0 \<or> length removed \<noteq> 0)"

subsection \<open>Abstract specification\<close>

text \<open>
  The detector as the specification reframes it (section 9): an ordered list of keys, the
  delta of the first key whose delta is non-empty. A key \<^emph>\<open>agrees\<close> on two snapshots when
  every value of each is a scalar that occurs among the values of the other.
\<close>

definition change_keys :: "(event \<Rightarrow> jsprop) list" where
  "change_keys = [key_alarm_id, key_idle_state, key_degraded]"

definition delta :: "(event \<Rightarrow> jsprop) \<Rightarrow> event list \<Rightarrow> event list \<Rightarrow> event list \<times> event list" where
  "delta k cur prev = (differenceBy k cur prev, differenceBy k prev cur)"

fun first_delta ::
  "(event \<Rightarrow> jsprop) list \<Rightarrow> event list \<Rightarrow> event list \<Rightarrow> event list \<times> event list" where
  "first_delta [] cur prev = ([], [])"
| "first_delta (k # ks) cur prev =
     (if delta k cur prev \<noteq> ([], []) then delta k cur prev else first_delta ks cur prev)"

definition agrees :: "(event \<Rightarrow> jsprop) \<Rightarrow> event list \<Rightarrow> event list \<Rightarrow> bool" where
  "agrees k cur prev \<longleftrightarrow>
     (\<forall>x \<in> set cur. scalar (k x) \<and> k x \<in> k ` set prev) \<and>
     (\<forall>x \<in> set prev. scalar (k x) \<and> k x \<in> k ` set cur)"

definition scalar_keys :: "event list \<Rightarrow> bool" where
  "scalar_keys es \<longleftrightarrow> (\<forall>k \<in> set change_keys. \<forall>e \<in> set es. scalar (k e))"

subsection \<open>Lemmas\<close>

lemma delta_Nil_iff: "delta k cur prev = ([], []) \<longleftrightarrow> agrees k cur prev"
  by (auto simp: delta_def agrees_def differenceBy_Nil_iff)

lemma first_delta_Nil_iff:
  "first_delta ks cur prev = ([], []) \<longleftrightarrow> (\<forall>k \<in> set ks. agrees k cur prev)"
  by (induction ks) (auto simp: delta_Nil_iff)

lemma has_changes_iff: "has_changes d \<longleftrightarrow> d \<noteq> ([], [])"
  by (cases d) (simp add: has_changes_def)

lemma agrees_scalar_iff:
  "(\<forall>e \<in> set cur. scalar (k e)) \<Longrightarrow> (\<forall>e \<in> set prev. scalar (k e)) \<Longrightarrow>
   agrees k cur prev \<longleftrightarrow> k ` set cur = k ` set prev"
  by (auto simp: agrees_def)

abbreviation sample_event :: "string \<Rightarrow> string \<Rightarrow> string \<Rightarrow> event" where
  "sample_event r a st \<equiv>
     \<lparr>resource_arn = jstr r, alarm_id = jstr a,
      detail = Some \<lparr>idle_state = jstr st, degraded = None\<rparr>\<rparr>"

lemma detect_changes_eq_first_delta:
  "detect_changes current previous = first_delta change_keys current previous"
  by (simp add: detect_changes_def change_keys_def delta_def Let_def)

lemma has_changes_detect_iff:
  "has_changes (detect_changes current previous) \<longleftrightarrow>
     (\<exists>k \<in> set change_keys. \<not> agrees k current previous)"
  by (auto simp: detect_changes_eq_first_delta has_changes_iff first_delta_Nil_iff)

lemma detect_changes_same_scalar:
  "scalar_keys es \<Longrightarrow> \<not> has_changes (detect_changes es es)"
  by (auto simp: has_changes_detect_iff scalar_keys_def agrees_scalar_iff)

lemma last_match_in: "last_match sts r = Some st \<Longrightarrow> st \<in> set sts"
  by (auto simp: last_match_def find_Some_iff) (metis length_rev nth_mem set_rev)

lemma enrich_spec_keys:
  "key_alarm_id (enrich_spec sts e) = key_alarm_id e"
  "key_degraded (enrich_spec sts e) = key_degraded e"
  "key_idle_state (enrich_spec sts e) \<in>
     insert (key_idle_state e) (idle_state_of ` data ` set sts)"
proof -
  show "key_alarm_id (enrich_spec sts e) = key_alarm_id e" by (simp add: key_alarm_id_def)
  have "map_option degraded (detail (enrich_spec sts e)) = map_option degraded (detail e)"
    by simp
  then show "key_degraded (enrich_spec sts e) = key_degraded e"
    by (cases "detail e"; cases "detail (enrich_spec sts e)") (simp_all add: key_degraded_def)
  show "key_idle_state (enrich_spec sts e) \<in>
          insert (key_idle_state e) (idle_state_of ` data ` set sts)"
    by (auto simp: key_idle_state_def enrich_spec_def set_idle_state_def
             dest: last_match_in split: option.splits)
qed

lemmas detect_eval = detect_changes_def key_alarm_id_def key_idle_state_def key_degraded_def
  has_changes_def

subsection \<open>Properties of the detector\<close>

text \<open>C3: the cascade of lines 123--134 is the specification's ordered list of keys: the
  delta of the first of \<open>alarm_id\<close>, \<open>detail.idle_state\<close>, \<open>detail.degraded\<close> whose
  delta is non-empty, and the empty delta when none is.\<close>

theorem detect_changes_first_delta:
  "detect_changes current previous = first_delta change_keys current previous"
  by (rule detect_changes_eq_first_delta)

theorem detect_changes_first_delta_witness:
  "detect_changes [sample_event ''r1'' ''a1'' ''IDLE''] [sample_event ''r1'' ''a2'' ''RUNNING''] =
   ([sample_event ''r1'' ''a1'' ''IDLE''], [sample_event ''r1'' ''a2'' ''RUNNING''])"
  using detect_changes_first_delta [of "[sample_event ''r1'' ''a1'' ''IDLE'']"
      "[sample_event ''r1'' ''a2'' ''RUNNING'']"]
  by (simp add: change_keys_def delta_def key_alarm_id_def)

text \<open>The listeners are notified exactly when one of the three keys disagrees on the two
  snapshots; differences in any other field never trigger a notification.\<close>

theorem detect_changes_notify_iff:
  "has_changes (detect_changes current previous) \<longleftrightarrow>
     (\<exists>k \<in> set change_keys. \<not> agrees k current previous)"
  by (rule has_changes_detect_iff)

theorem detect_changes_notify_iff_witness:
  "\<not> has_changes (detect_changes [sample_event ''r1'' ''a1'' ''IDLE'']
                                 [sample_event ''r9'' ''a1'' ''IDLE''])"
  using detect_changes_notify_iff [of "[sample_event ''r1'' ''a1'' ''IDLE'']"
      "[sample_event ''r9'' ''a1'' ''IDLE'']"]
  by (simp add: change_keys_def agrees_def key_alarm_id_def key_idle_state_def key_degraded_def)

text \<open>C4: for snapshots whose key values are scalars (the strings of the feeds), a
  notification happens exactly when the set of values of some key differs between the
  current and the previous snapshot.\<close>

theorem detect_changes_notify_images:
  assumes "scalar_keys current" and "scalar_keys previous"
  shows "has_changes (detect_changes current previous) \<longleftrightarrow>
           (\<exists>k \<in> set change_keys. k ` set current \<noteq> k ` set previous)"
  using assms by (auto simp: has_changes_detect_iff scalar_keys_def agrees_scalar_iff)

theorem detect_changes_notify_images_witness:
  "scalar_keys [sample_event ''r1'' ''a1'' ''IDLE''] \<and>
   scalar_keys [sample_event ''r1'' ''a1'' ''RUNNING''] \<and>
   has_changes (detect_changes [sample_event ''r1'' ''a1'' ''IDLE'']
                               [sample_event ''r1'' ''a1'' ''RUNNING''])"
proof -
  have s1: "scalar_keys [sample_event ''r1'' ''a1'' ''IDLE'']"
    and s2: "scalar_keys [sample_event ''r1'' ''a1'' ''RUNNING'']"
    by (simp_all add: scalar_keys_def change_keys_def key_alarm_id_def key_idle_state_def
                      key_degraded_def)
  show ?thesis
    using detect_changes_notify_images [OF s1 s2] s1 s2
    by (simp add: change_keys_def key_idle_state_def)
qed

text \<open>C22: an event whose \<open>detail.idle_state\<close> is an object or an array makes every cycle
  a change, since lodash compares such values by reference and every response is parsed
  into fresh objects.\<close>

theorem detect_composite_idle_state_changes:
  "e \<in> set current \<Longrightarrow> \<not> scalar (key_idle_state e) \<Longrightarrow>
   has_changes (detect_changes current previous)"
  by (auto simp: has_changes_detect_iff change_keys_def agrees_def)

abbreviation object_state_event :: event where
  "object_state_event \<equiv>
     \<lparr>resource_arn = jstr ''r1'', alarm_id = jstr ''a1'',
      detail = Some \<lparr>idle_state = Some (JObj []), degraded = None\<rparr>\<rparr>"

theorem detect_composite_idle_state_changes_witness:
  "has_changes (detect_changes [object_state_event] [object_state_event])"
  using detect_composite_idle_state_changes [of object_state_event "[object_state_event]"]
  by (simp add: key_idle_state_def)

text \<open>C35: merging keeps the key values scalar: when the grouped events carry scalar
  \<open>alarm_id\<close>, \<open>detail.idle_state\<close> and \<open>detail.degraded\<close>, and every parsed
  status record's \<open>idle_state\<close> is a scalar, every event of the merged snapshot has
  scalar key values. This is the hypothesis under which the detector compares values
  rather than references.\<close>

theorem merge_preserves_scalar_keys:
  assumes "merge_snapshot p s idleStatus runningStatus = Inr (sets, idles, running)"
      and "scalar_keys (concat_sets s)"
      and "\<forall>st \<in> set idles \<union> set running. scalar (idle_state_of (data st))"
  shows "scalar_keys sets"
proof -
  have sets: "sets = map (enrich_spec running \<circ> enrich_spec idles) (concat_sets s)"
    using merge_snapshot_Inr [OF assms(1)] by simp
  have "scalar (k (enrich_spec running (enrich_spec idles e)))"
    if "k \<in> set change_keys" and "e \<in> set (concat_sets s)" for k e
  proof -
    have e: "scalar (key_alarm_id e)" "scalar (key_idle_state e)" "scalar (key_degraded e)"
      using assms(2) that(2) by (auto simp: scalar_keys_def change_keys_def)
    have "scalar (key_idle_state (enrich_spec idles e))"
      using enrich_spec_keys(3) [of idles e] e(2) assms(3) by auto
    then have "scalar (key_idle_state (enrich_spec running (enrich_spec idles e)))"
      using enrich_spec_keys(3) [of running "enrich_spec idles e"] assms(3) by auto
    then show ?thesis
      using that(1) e by (auto simp: change_keys_def enrich_spec_keys(1,2))
  qed
  then show ?thesis by (auto simp: scalar_keys_def sets)
qed

theorem merge_preserves_scalar_keys_witness:
  "scalar_keys [event_r1\<lparr>detail := Some (sample_detail\<lparr>idle_state := jstr ''RUNNING''\<rparr>)\<rparr>]"
proof -
  have "scalar_keys (concat_sets sets_r1)"
    by (simp add: concat_sets_def scalar_keys_def change_keys_def key_alarm_id_def
                  key_idle_state_def key_degraded_def)
  moreover have "\<forall>st \<in> set [\<lparr>arn = jstr ''r1'', data = JObj [(''idle_state'', JStr ''IDLE'')]\<rparr>] \<union>
                         set [\<lparr>arn = jstr ''r1'', data = JObj [(''idle_state'', JStr ''RUNNING'')]\<rparr>].
                   scalar (idle_state_of (data st))"
    by (simp add: idle_state_of_def)
  ultimately show ?thesis using merge_preserves_scalar_keys [OF merge_sample_override] by blast
qed

end
