(* ===== verification/Notify.thy ===== *)
theory Notify
  imports Detect
begin

text \<open>
  The notifier of events.js: the registry \<open>listeners\<close> that \<open>add_callback\<close> extends
  without duplicates (lines 184--186), and the loop \<open>for (let f of listeners)
  f(current_set_events, previous_set_events)\<close> (lines 137--139). A listener is known by its
  reference, the type variable \<open>'l\<close>; what it does is outside the module, so the model
  records each invocation with its arguments, and the parameter \<open>ok\<close> says whether the
  listener returns normally in this dispatch or throws. A throw leaves the loop and is
  caught by the \<open>catch\<close> of line 141. Listeners that re-enter the module are not modelled.
\<close>

definition add_listener :: "'l list \<Rightarrow> 'l \<Rightarrow> 'l list" where
  "add_listener listeners f = (if f \<in> set listeners then listeners else listeners @ [f])"

fun notify_listeners ::
  "('l \<Rightarrow> bool) \<Rightarrow> 'l list \<Rightarrow> 'a \<Rightarrow> 'a \<Rightarrow> ('l \<times> 'a \<times> 'a) list \<times> js_error option" where
  "notify_listeners ok [] current previous = ([], None)"
| "notify_listeners ok (f # fs) current previous =
     (if ok f
      then (case notify_listeners ok fs current previous of
              (calls, r) \<Rightarrow> ((f, current, previous) # calls, r))
      else ([(f, current, previous)], Some ListenerError))"

subsection \<open>Lemmas\<close>

lemma set_add_listener [simp]: "set (add_listener ls f) = insert f (set ls)"
  by (auto simp: add_listener_def)

lemma distinct_add_listener [simp]: "distinct (add_listener ls f) \<longleftrightarrow> distinct ls"
  by (auto simp: add_listener_def)

lemma add_listener_idem [simp]: "add_listener (add_listener ls f) f = add_listener ls f"
  by (simp add: add_listener_def)

lemma notify_listeners_eq:
  "notify_listeners ok ls c p =
     (map (\<lambda>f. (f, c, p)) (takeWhile ok ls @ take 1 (dropWhile ok ls)),
      if list_all ok ls then None else Some ListenerError)"
  by (induction ls) auto

lemma notify_listeners_all_ok:
  "list_all ok ls \<Longrightarrow> notify_listeners ok ls c p = (map (\<lambda>f. (f, c, p)) ls, None)"
  by (induction ls) auto

lemma notify_listeners_calls:
  "notify_listeners ok ls c p = (cs, r) \<Longrightarrow> (g, c', p') \<in> set cs \<Longrightarrow>
   g \<in> set ls \<and> c' = c \<and> p' = p"
  by (induction ls arbitrary: cs r) (auto split: prod.splits if_splits)

lemma notify_listeners_throw:
  "list_all ok xs \<Longrightarrow> \<not> ok f \<Longrightarrow>
   notify_listeners ok (xs @ f # ys) c p = (map (\<lambda>g. (g, c, p)) (xs @ [f]), Some ListenerError)"
  by (induction xs) auto

end
