(* ===== verification/Dispatch.thy ===== *)
theory Dispatch
  imports Notify
begin

text \<open>
  The notification loop \<open>for (let f of listeners) f(current, previous)\<close> (lines 137--139)
  iterates the module's \<open>listeners\<close> array itself, and an array iterator reads the
  array's length afresh at each step. A listener may call \<open>add_callback\<close> (lines
  183--190) while it runs. The callback it registers is pushed onto the array being
  iterated, so it is called in the same cycle. In a state reachable from the module start
  a registered listener implies a running timer with a positive id (\<open>poll_inv\<close> and
  \<open>timer_inv\<close>), so such a call only registers: \<open>schedule_interval\<close> does not run.

  A listener's \<open>reaction\<close> is the list of callbacks it registers, in order, followed by a
  normal return (\<open>Returns\<close>) or a throw (\<open>Throws\<close>). Calls of other module
  functions from a listener are not modelled. \<open>dispatch_live\<close> is the loop over the
  live array. It may not end, so it is a \<^theory_text>\<open>partial_function (option)\<close>. It returns
  the final array, the calls it made and the exception that ends it.
  \<open>notify_listeners\<close> of Notify is the special case in which no listener registers
  anything. The event loop of Poller has a tick rule for each of the two.
\<close>

subsection \<open>The loop over the live array\<close>

datatype 'l reaction = Returns "'l list" | Throws "'l list"

partial_function (option) dispatch_live ::
  "('l \<Rightarrow> 'l reaction) \<Rightarrow> 'l list \<Rightarrow> nat \<Rightarrow> 'a \<Rightarrow> 'a \<Rightarrow>
   ('l list \<times> ('l \<times> 'a \<times> 'a) list \<times> js_error option) option" where
  "dispatch_live react ls i current previous =
     (if i < length ls
      then (case react (ls ! i) of
              Throws gs \<Rightarrow>
                Some (foldl add_listener ls gs, [(ls ! i, current, previous)], Some ListenerError)
            | Returns gs \<Rightarrow>
                Option.bind (dispatch_live react (foldl add_listener ls gs) (Suc i) current previous)
                  (\<lambda>(ls', cs, r). Some (ls', (ls ! i, current, previous) # cs, r)))
      else Some (ls, [], None))"

text \<open>What a returning dispatch guarantees: the array only grows, stays duplicate-free, and
  every call went to a listener of the final array with the two snapshots it was given.\<close>

definition dispatch_ok :: "'l list \<Rightarrow> 'a \<Rightarrow> 'a \<Rightarrow> 'l list \<times> ('l \<times> 'a \<times> 'a) list \<times> js_error option \<Rightarrow> bool" where
  "dispatch_ok ls c p res \<longleftrightarrow> (case res of (ls', cs, r) \<Rightarrow>
     set ls \<subseteq> set ls' \<and> (distinct ls \<longrightarrow> distinct ls') \<and>
     (\<forall>(g, c', p') \<in> set cs. g \<in> set ls' \<and> c' = c \<and> p' = p))"

subsection \<open>Lemmas\<close>

lemma dispatch_live_no_reentry:
  "\<forall>f \<in> set (drop i ls). react f = Returns [] \<or> react f = Throws [] \<Longrightarrow>
   dispatch_live react ls i current previous =
     Some (case notify_listeners (\<lambda>f. react f = Returns []) (drop i ls) current previous of
             (cs, r) \<Rightarrow> (ls, cs, r))"
proof (induction "length ls - i" arbitrary: i)
  case 0
  then show ?case by (simp add: dispatch_live.simps [of react ls i])
next
  case (Suc n)
  then have i: "i < length ls" by simp
  have d: "drop i ls = ls ! i # drop (Suc i) ls" using i by (simp add: Cons_nth_drop_Suc)
  have r: "react (ls ! i) = Returns [] \<or> react (ls ! i) = Throws []" using Suc.prems d by simp
  have ih: "dispatch_live react ls (Suc i) current previous =
     Some (case notify_listeners (\<lambda>f. react f = Returns []) (drop (Suc i) ls) current previous of
             (cs, r) \<Rightarrow> (ls, cs, r))"
    using Suc.hyps(1) [of "Suc i"] Suc.hyps(2) Suc.prems d by simp
  show ?case
    using r i ih by (auto simp: dispatch_live.simps [of react ls i] d split: prod.splits)
qed

lemma length_le_card: "distinct xs \<Longrightarrow> set xs \<subseteq> L \<Longrightarrow> finite L \<Longrightarrow> length xs \<le> card L"
proof -
  assume d: "distinct xs" and s: "set xs \<subseteq> L" and f: "finite L"
  have "length xs = card (set xs)" using distinct_card [OF d] by simp
  also have "\<dots> \<le> card L" using card_mono [OF f s] .
  finally show ?thesis .
qed

lemma foldl_add_listener_set [simp]: "set (foldl add_listener ls gs) = set ls \<union> set gs"
  by (induction gs arbitrary: ls) auto

lemma foldl_add_listener_distinct [simp]: "distinct (foldl add_listener ls gs) \<longleftrightarrow> distinct ls"
  by (induction gs arbitrary: ls) auto

lemma dispatch_live_result:
  assumes ret: "dispatch_live react ls i c p = Some res"
  shows "dispatch_ok ls c p res"
proof (rule dispatch_live.raw_induct [where P = "\<lambda>react ls i c p res. dispatch_ok ls c p res", OF _ ret])
  fix f react ls i c p res
  assume IH: "\<And>react ls i c p res. f react ls i c p = Some res \<Longrightarrow> dispatch_ok ls c p res"
    and eq: "(if i < length ls
              then case react (ls ! i) of
                     Returns gs \<Rightarrow>
                       Option.bind (f react (foldl add_listener ls gs) (Suc i) c p)
                         (\<lambda>(ls', cs, r). Some (ls', (ls ! i, c, p) # cs, r))
                   | Throws gs \<Rightarrow> Some (foldl add_listener ls gs, [(ls ! i, c, p)], Some ListenerError)
              else Some (ls, [], None)) = Some res"
  show "dispatch_ok ls c p res"
  proof (cases "i < length ls")
    case False
    then show ?thesis using eq by (auto simp: dispatch_ok_def)
  next
    case True
    then have mem: "ls ! i \<in> set ls" by simp
    show ?thesis
    proof (cases "react (ls ! i)")
      case (Throws gs)
      then show ?thesis using eq True mem by (auto simp: dispatch_ok_def)
    next
      case (Returns gs)
      then obtain ls' cs r where
        rec: "f react (foldl add_listener ls gs) (Suc i) c p = Some (ls', cs, r)" and
        res: "res = (ls', (ls ! i, c, p) # cs, r)"
        using eq True by (auto simp: bind_eq_Some_conv)
      have "dispatch_ok (foldl add_listener ls gs) c p (ls', cs, r)" by (rule IH [OF rec])
      then show ?thesis using res mem by (auto simp: dispatch_ok_def)
    qed
  qed
qed


lemma foldl_add_listener_prefix: "\<exists>zs. foldl add_listener ls gs = ls @ zs"
proof (induction gs arbitrary: ls)
  case Nil then show ?case by simp
next
  case (Cons g gs)
  obtain zs where "foldl add_listener (add_listener ls g) gs = add_listener ls g @ zs"
    using Cons.IH by blast
  moreover have "\<exists>ys. add_listener ls g = ls @ ys" by (simp add: add_listener_def)
  ultimately show ?case by auto
qed

lemma dispatch_live_all_return:
  assumes ret: "dispatch_live react ls i c p = Some res"
      and all: "\<forall>f. \<exists>gs. react f = Returns gs"
  shows "case res of (ls', cs, r) \<Rightarrow>
           (\<exists>zs. ls' = ls @ zs) \<and> cs = map (\<lambda>f. (f, c, p)) (drop i ls') \<and> r = None"
proof -
  have "(\<forall>f. \<exists>gs. react f = Returns gs) \<longrightarrow> (case res of (ls', cs, r) \<Rightarrow>
           (\<exists>zs. ls' = ls @ zs) \<and> cs = map (\<lambda>f. (f, c, p)) (drop i ls') \<and> r = None)"
  proof (rule dispatch_live.raw_induct
           [where P = "\<lambda>react ls i c p res. (\<forall>f. \<exists>gs. react f = Returns gs) \<longrightarrow>
              (case res of (ls', cs, r) \<Rightarrow>
                 (\<exists>zs. ls' = ls @ zs) \<and> cs = map (\<lambda>f. (f, c, p)) (drop i ls') \<and> r = None)",
            OF _ ret])
    fix f react ls i c p res
    assume IH: "\<And>react ls i c p res. f react ls i c p = Some res \<Longrightarrow>
                  (\<forall>f. \<exists>gs. react f = Returns gs) \<longrightarrow> (case res of (ls', cs, r) \<Rightarrow>
                    (\<exists>zs. ls' = ls @ zs) \<and> cs = map (\<lambda>f. (f, c, p)) (drop i ls') \<and> r = None)"
      and eq: "(if i < length ls
                then case react (ls ! i) of
                       Returns gs \<Rightarrow>
                         Option.bind (f react (foldl add_listener ls gs) (Suc i) c p)
                           (\<lambda>(ls', cs, r). Some (ls', (ls ! i, c, p) # cs, r))
                     | Throws gs \<Rightarrow> Some (foldl add_listener ls gs, [(ls ! i, c, p)], Some ListenerError)
                else Some (ls, [], None)) = Some res"
    show "(\<forall>f. \<exists>gs. react f = Returns gs) \<longrightarrow> (case res of (ls', cs, r) \<Rightarrow>
            (\<exists>zs. ls' = ls @ zs) \<and> cs = map (\<lambda>f. (f, c, p)) (drop i ls') \<and> r = None)"
    proof
      assume a: "\<forall>f. \<exists>gs. react f = Returns gs"
      show "case res of (ls', cs, r) \<Rightarrow>
              (\<exists>zs. ls' = ls @ zs) \<and> cs = map (\<lambda>f. (f, c, p)) (drop i ls') \<and> r = None"
      proof (cases "i < length ls")
        case False
        then show ?thesis using eq by auto
      next
        case True
        obtain gs where g: "react (ls ! i) = Returns gs" using a by blast
        then obtain ls' cs r where
          rec: "f react (foldl add_listener ls gs) (Suc i) c p = Some (ls', cs, r)" and
          res: "res = (ls', (ls ! i, c, p) # cs, r)"
          using eq True by (auto simp: bind_eq_Some_conv)
        obtain ys where ys: "foldl add_listener ls gs = ls @ ys"
          using foldl_add_listener_prefix by blast
        obtain zs where zs: "ls' = ls @ ys @ zs"
          and cs: "cs = map (\<lambda>f. (f, c, p)) (drop (Suc i) ls')" and r: "r = None"
          using IH [OF rec] a ys by auto
        have "drop i ls' = ls ! i # drop (Suc i) ls'"
          using True zs by (simp add: Cons_nth_drop_Suc [symmetric] nth_append)
        then show ?thesis using res zs cs r by auto
      qed
    qed
  qed
  then show ?thesis using all by blast
qed

lemma dispatch_live_terminates:
  assumes "finite L" and "set ls \<subseteq> L" and "distinct ls"
      and "\<forall>f \<in> L. case react f of Returns gs \<Rightarrow> set gs \<subseteq> L | Throws gs \<Rightarrow> True"
  shows "\<exists>r. dispatch_live react ls i current previous = Some r"
  using assms(2,3)
proof (induction "card L - i" arbitrary: ls i rule: less_induct)
  case less
  show ?case
  proof (cases "i < length ls")
    case False
    then show ?thesis by (simp add: dispatch_live.simps [of react ls i])
  next
    case True
    have f: "ls ! i \<in> L" using True less.prems(1) nth_mem by blast
    show ?thesis
    proof (cases "react (ls ! i)")
      case (Throws gs)
      then show ?thesis using True by (simp add: dispatch_live.simps [of react ls i])
    next
      case (Returns gs)
      let ?ls = "foldl add_listener ls gs"
      have g: "set gs \<subseteq> L" using assms(4) f Returns by fastforce
      have s: "set ?ls \<subseteq> L" and dl: "distinct ?ls"
        using less.prems g by auto
      have "length ls \<le> card L" using length_le_card [OF less.prems(2,1) assms(1)] .
      then have "card L - Suc i < card L - i" using True by simp
      then obtain r where "dispatch_live react ?ls (Suc i) current previous = Some r"
        using less.hyps s dl by blast
      then show ?thesis
        using True Returns by (auto simp: dispatch_live.simps [of react ls i] split: prod.splits)
    qed
  qed
qed

lemma dispatch_live_chain_diverges:
  "dispatch_live (\<lambda>n. Returns [Suc n]) [0..<Suc i] i current previous \<noteq> Some r"
proof
  assume ret: "dispatch_live (\<lambda>n. Returns [Suc n]) [0..<Suc i] i current previous = Some r"
  have "(\<lambda>n. Returns [Suc n]) = (\<lambda>n. Returns [Suc n]) \<longrightarrow> [0..<Suc i] = [0..<Suc i] \<longrightarrow> False"
  proof (rule dispatch_live.raw_induct
           [where P = "\<lambda>react ls i current previous r.
                         react = (\<lambda>n. Returns [Suc n]) \<longrightarrow> ls = [0..<Suc i] \<longrightarrow> False",
            OF _ ret])
    fix f react ls j c p y
    assume IH: "\<And>react ls j c p y. f react ls j c p = Some y \<Longrightarrow>
                  react = (\<lambda>n. Returns [Suc n]) \<longrightarrow> ls = [0..<Suc j] \<longrightarrow> False"
      and eq: "(if j < length ls
               then case react (ls ! j) of
                      Returns gs \<Rightarrow>
                        Option.bind (f react (foldl add_listener ls gs) (Suc j) c p)
                          (\<lambda>(ls', cs, r). Some (ls', (ls ! j, c, p) # cs, r))
                    | Throws gs \<Rightarrow> Some (foldl add_listener ls gs, [(ls ! j, c, p)], Some ListenerError)
               else Some (ls, [], None)) = Some y"
    show "react = (\<lambda>n. Returns [Suc n]) \<longrightarrow> ls = [0..<Suc j] \<longrightarrow> False"
    proof (intro impI)
      assume r: "react = (\<lambda>n. Returns [Suc n])" and l: "ls = [0..<Suc j]"
      have "foldl add_listener [0..<Suc j] [Suc j] = [0..<Suc (Suc j)]"
        by (simp add: add_listener_def del: upt_Suc) simp
      moreover have "[0..<Suc j] ! j = j" by (simp add: nth_append)
      ultimately obtain y' where "f react [0..<Suc (Suc j)] (Suc j) c p = Some y'"
        using eq r l by (auto simp: bind_eq_Some_conv simp del: upt_Suc)
      then show False using IH r by blast
    qed
  qed
  then show False by simp
qed

subsection \<open>Properties of the dispatch\<close>

text \<open>C12: when no listener registers a callback, the loop over the live array is the
  dispatch \<open>notify_listeners\<close> that the model of a tick uses: it calls the listeners in
  order until one throws, and leaves the array unchanged.\<close>

theorem dispatch_without_reentry_is_notify:
  "\<forall>f \<in> set ls. react f = Returns [] \<or> react f = Throws [] \<Longrightarrow>
   dispatch_live react ls 0 current previous =
     Some (ls, fst (notify_listeners (\<lambda>f. react f = Returns []) ls current previous),
           snd (notify_listeners (\<lambda>f. react f = Returns []) ls current previous))"
  using dispatch_live_no_reentry [of 0 ls react current previous] by (simp split: prod.splits)

theorem dispatch_without_reentry_is_notify_witness:
  "dispatch_live (\<lambda>n::nat. if n = 0 then Returns [] else Throws []) [0, 1] 0 (''c'') (''p'') =
     Some ([0, 1], [(0, ''c'', ''p''), (1, ''c'', ''p'')], Some ListenerError)"
  using dispatch_without_reentry_is_notify [of "[0, 1::nat]" "\<lambda>n. if n = 0 then Returns [] else Throws []"]
  by simp

text \<open>C21: the dispatch returns whenever the listeners registered along the way come from a
  finite set of callbacks: the array stays duplicate-free inside that set, so the index
  reaches its end.\<close>

theorem dispatch_terminates:
  assumes "finite L" and "set ls \<subseteq> L" and "distinct ls"
      and "\<forall>f \<in> L. case react f of Returns gs \<Rightarrow> set gs \<subseteq> L | Throws gs \<Rightarrow> True"
  shows "\<exists>r. dispatch_live react ls i current previous = Some r"
  using assms by (rule dispatch_live_terminates)

theorem dispatch_terminates_witness:
  "\<exists>r. dispatch_live (\<lambda>n::nat. Returns [1 - n]) [0] 0 (''c'') (''p'') = Some r"
proof -
  have "\<forall>f \<in> {0, 1::nat}. case Returns [1 - f] of Returns gs \<Rightarrow> set gs \<subseteq> {0, 1} | Throws gs \<Rightarrow> True"
    by auto
  then show ?thesis
    using dispatch_terminates [of "{0, 1::nat}" "[0]" "\<lambda>n. Returns [1 - n]" 0 "''c''" "''p''"] by simp
qed

text \<open>A callback registered by a listener during the dispatch is called in the same
  cycle, after the listeners already in the array. A chain of listeners that each register a
  fresh callback makes the loop run forever, so the tick never completes.\<close>

theorem dispatch_reentrant_registration:
  "dispatch_live (\<lambda>n::nat. if n = 0 then Returns [1] else Returns []) [0] 0 current previous =
     Some ([0, 1], [(0, current, previous), (1, current, previous)], None) \<and>
   dispatch_live (\<lambda>n::nat. Returns [Suc n]) [0] 0 current previous = None"
proof
  show "dispatch_live (\<lambda>n::nat. if n = 0 then Returns [1] else Returns []) [0] 0 current previous =
          Some ([0, 1], [(0, current, previous), (1, current, previous)], None)"
    by (simp add: dispatch_live.simps add_listener_def)
  show "dispatch_live (\<lambda>n::nat. Returns [Suc n]) [0] 0 current previous = None"
    using dispatch_live_chain_diverges [of 0 current previous] by (cases "dispatch_live (\<lambda>n::nat. Returns [Suc n]) [0] 0 current previous") auto
qed

end
