(* ===== verification/Poller.thy ===== *)
theory Poller
  imports Dispatch
begin

text \<open>
  The module of events.js as a whole: its module-level variables (lines 7--25) are the
  record \<open>poller\<close>; the world it runs in (the interval timers of the browser, the settings
  store, the current connection, the promises in flight and the log of listener
  invocations) is the record \<open>sys\<close>. Each exported function and each settlement of a
  promise is a function \<open>sys \<Rightarrow> sys\<close>; the relation \<open>step\<close> lets any of them happen
  next, which is how JavaScript's single-threaded event loop interleaves timer ticks,
  responses and calls: every handler runs to completion before the next one starts.
  The connection store, the settings store and the HTTP client are modules of the
  repository outside \<open>src/\<close>; they are modelled from the specification.
\<close>

subsection \<open>State\<close>

record 'l poller =
  listeners :: "'l list"
  current_set_events :: "event list"
  current_idle_events :: "json status list"
  current_running_events :: "json status list"
  previous_set_events :: "event list"
  previous_idle_events :: "json status list"
  previous_running_events :: "json status list"
  update_interval :: jsnum
  intervalID :: "nat option"

definition settings_key :: string where
  "settings_key = ''app-event-update-interval''"

text \<open>A request is the endpoint and the API key passed to \<open>server.get\<close>.\<close>

type_synonym request = "string \<times> string"

record 'l sys =
  poller :: "'l poller"
  timers :: "(nat \<times> int) list"
  next_timer :: nat
  store :: "string \<rightharpoonup> string"
  connection :: "string \<times> string"
  inflight :: "request list list"
  puts :: "int list"
  load_pending :: bool
  calls :: "('l \<times> event list \<times> event list) list"

subsection \<open>Collaborators outside src/ (from the specification) and browser timers\<close>

definition get_current :: "'l sys \<Rightarrow> string \<times> string" where
  "get_current s = connection s"

definition settings_get :: "'l sys \<Rightarrow> string \<Rightarrow> string option" where
  "settings_get s k = store s k"

definition settings_put :: "string \<Rightarrow> string \<Rightarrow> 'l sys \<Rightarrow> 'l sys" where
  "settings_put k v s = s\<lparr>store := (store s)(k \<mapsto> v)\<rparr>"

definition clearInterval :: "nat \<Rightarrow> 'l sys \<Rightarrow> 'l sys" where
  "clearInterval i s = s\<lparr>timers := filter (\<lambda>t. fst t \<noteq> i) (timers s)\<rparr>"

definition setInterval :: "jsnum \<Rightarrow> 'l sys \<Rightarrow> nat \<times> 'l sys" where
  "setInterval d s =
     (next_timer s,
      s\<lparr>timers := timers s @ [(next_timer s, timer_delay d)], next_timer := Suc (next_timer s)\<rparr>)"

text \<open>JavaScript truthiness of \<open>intervalID\<close>: \<open>undefined\<close> and \<open>0\<close> are false.\<close>

definition id_truthy :: "nat option \<Rightarrow> bool" where
  "id_truthy x = (case x of None \<Rightarrow> False | Some i \<Rightarrow> i \<noteq> 0)"

definition remove_at :: "nat \<Rightarrow> 'a list \<Rightarrow> 'a list" where
  "remove_at i xs = take i xs @ drop (Suc i) xs"

subsection \<open>Requests (lines 27--57)\<close>

definition retrieve_for_running_status :: "'l sys \<Rightarrow> string \<Rightarrow> request" where
  "retrieve_for_running_status s state =
     (case get_current s of (url, api_key) \<Rightarrow> (url @ ''/channels/state/'' @ state, api_key))"

definition retrieve_for_state :: "'l sys \<Rightarrow> string \<Rightarrow> request" where
  "retrieve_for_state s state =
     (case get_current s of
        (url, api_key) \<Rightarrow> (url @ ''/cloudwatch/events/state/'' @ state @ ''/groups'', api_key))"

subsection \<open>One cycle of \<open>cache_update\<close> (lines 59--144)\<close>

text \<open>A tick issues the three requests; their promises are in flight until they settle.\<close>

definition cache_update :: "'l sys \<Rightarrow> 'l sys" where
  "cache_update s =
     s\<lparr>inflight := inflight s @
        [[retrieve_for_state s ''set'', retrieve_for_running_status s ''idle'',
          retrieve_for_running_status s ''running'']]\<rparr>"

definition rotate_cache ::
  "'l poller \<Rightarrow> event list \<Rightarrow> json status list \<Rightarrow> json status list \<Rightarrow> 'l poller" where
  "rotate_cache m sets idles running =
     m\<lparr>previous_running_events := current_running_events m,
       previous_idle_events := current_idle_events m,
       previous_set_events := current_set_events m,
       current_set_events := sets,
       current_idle_events := idles,
       current_running_events := running\<rparr>"

text \<open>
  The \<open>then\<close> handler: merge, rotate_cache, detect, notify. It returns the new module state,
  the listener invocations it made and the exception that reached the \<open>catch\<close>, if any.
  An exception before the rotation leaves the state as it was.
\<close>

definition cache_update_then ::
  "json_parser \<Rightarrow> ('l \<Rightarrow> bool) \<Rightarrow> set_status \<times> string status list \<times> string status list \<Rightarrow>
   'l poller \<Rightarrow> 'l poller \<times> ('l \<times> event list \<times> event list) list \<times> js_error option" where
  "cache_update_then json_parse ok res m =
     (case res of (setStatus, idleStatus, runningStatus) \<Rightarrow>
      (case merge_snapshot json_parse setStatus idleStatus runningStatus of
         Inl err \<Rightarrow> (m, [], Some err)
       | Inr (sets, idles, running) \<Rightarrow>
           (let m' = rotate_cache m sets idles running
            in if has_changes (detect_changes (current_set_events m') (previous_set_events m'))
               then (case notify_listeners ok (listeners m') (current_set_events m')
                            (previous_set_events m') of
                       (cs, r) \<Rightarrow> (m', cs, r))
               else (m', [], None))))"

text \<open>\<open>Promise.all([...]).then(handler).catch(log)\<close>: a rejected request skips the handler.\<close>

definition cache_update_settle ::
  "json_parser \<Rightarrow> ('l \<Rightarrow> bool) \<Rightarrow> js_error + set_status \<Rightarrow> js_error + string status list \<Rightarrow>
   js_error + string status list \<Rightarrow> 'l poller \<Rightarrow>
   'l poller \<times> ('l \<times> event list \<times> event list) list \<times> js_error option" where
  "cache_update_settle json_parse ok setStatus idleStatus runningStatus m =
     (case promise_all3 setStatus idleStatus runningStatus of
        Inl err \<Rightarrow> (m, [], Some err)
      | Inr res \<Rightarrow> cache_update_then json_parse ok res m)"

text \<open>The handler with the notification loop over the live array (lines 136--139 with
  \<open>dispatch_live\<close>): a listener may register callbacks, which are called in the same
  cycle and stay registered. \<open>None\<close> is a dispatch that never returns.\<close>

definition cache_update_then_live ::
  "json_parser \<Rightarrow> ('l \<Rightarrow> 'l reaction) \<Rightarrow> set_status \<times> string status list \<times> string status list \<Rightarrow>
   'l poller \<Rightarrow> ('l poller \<times> ('l \<times> event list \<times> event list) list \<times> js_error option) option" where
  "cache_update_then_live json_parse react res m =
     (case res of (setStatus, idleStatus, runningStatus) \<Rightarrow>
      (case merge_snapshot json_parse setStatus idleStatus runningStatus of
         Inl err \<Rightarrow> Some (m, [], Some err)
       | Inr (sets, idles, running) \<Rightarrow>
           (let m' = rotate_cache m sets idles running
            in if has_changes (detect_changes (current_set_events m') (previous_set_events m'))
               then Option.bind (dispatch_live react (listeners m') 0 (current_set_events m')
                                   (previous_set_events m'))
                      (\<lambda>(ls, cs, r). Some (m'\<lparr>listeners := ls\<rparr>, cs, r))
               else Some (m', [], None))))"

definition cache_update_settle_live ::
  "json_parser \<Rightarrow> ('l \<Rightarrow> 'l reaction) \<Rightarrow> js_error + set_status \<Rightarrow> js_error + string status list \<Rightarrow>
   js_error + string status list \<Rightarrow> 'l poller \<Rightarrow>
   ('l poller \<times> ('l \<times> event list \<times> event list) list \<times> js_error option) option" where
  "cache_update_settle_live json_parse react setStatus idleStatus runningStatus m =
     (case promise_all3 setStatus idleStatus runningStatus of
        Inl err \<Rightarrow> Some (m, [], Some err)
      | Inr res \<Rightarrow> cache_update_then_live json_parse react res m)"

text \<open>The responses to the \<open>i\<close>-th tick in flight arrive and its handler runs.\<close>

definition tick_settled ::
  "json_parser \<Rightarrow> ('l \<Rightarrow> bool) \<Rightarrow> nat \<Rightarrow> js_error + set_status \<Rightarrow>
   js_error + string status list \<Rightarrow> js_error + string status list \<Rightarrow> 'l sys \<Rightarrow> 'l sys" where
  "tick_settled json_parse ok i r_set r_idle r_running s =
     (case cache_update_settle json_parse ok r_set r_idle r_running (poller s) of
        (m', cs, _) \<Rightarrow> s\<lparr>poller := m', inflight := remove_at i (inflight s), calls := calls s @ cs\<rparr>)"

definition tick_settled_live ::
  "json_parser \<Rightarrow> ('l \<Rightarrow> 'l reaction) \<Rightarrow> nat \<Rightarrow> js_error + set_status \<Rightarrow>
   js_error + string status list \<Rightarrow> js_error + string status list \<Rightarrow> 'l sys \<Rightarrow> 'l sys option" where
  "tick_settled_live json_parse react i r_set r_idle r_running s =
     map_option (\<lambda>(m', cs, _). s\<lparr>poller := m', inflight := remove_at i (inflight s), calls := calls s @ cs\<rparr>)
       (cache_update_settle_live json_parse react r_set r_idle r_running (poller s))"

subsection \<open>Interval and scheduling (lines 146--168)\<close>

definition load_update_interval_settled :: "'l sys \<Rightarrow> 'l sys" where
  "load_update_interval_settled s =
     s\<lparr>poller := (poller s)\<lparr>update_interval :=
          times_1000 (parseInt (settings_get s settings_key))\<rparr>,
       load_pending := False\<rparr>"

text \<open>\<open>settings.get\<close> rejects: the \<open>then\<close> of line 148 never runs and no \<open>catch\<close> is
  attached, so the load ends without touching the module state.\<close>

definition load_update_interval_failed :: "'l sys \<Rightarrow> 'l sys" where
  "load_update_interval_failed s = s\<lparr>load_pending := False\<rparr>"

declare load_update_interval_failed_def [simp]

definition set_update_interval :: "int \<Rightarrow> 'l sys \<Rightarrow> 'l sys" where
  "set_update_interval seconds s =
     s\<lparr>poller := (poller s)\<lparr>update_interval := Num (seconds * 1000)\<rparr>,
       puts := puts s @ [seconds]\<rparr>"

definition schedule_interval :: "'l sys \<Rightarrow> 'l sys" where
  "schedule_interval s =
     (let s1 = (case intervalID (poller s) of
                  Some i \<Rightarrow> if id_truthy (Some i) then clearInterval i s else s
                | None \<Rightarrow> s)
      in case setInterval (update_interval (poller s1)) s1 of
           (i, s2) \<Rightarrow> s2\<lparr>poller := (poller s2)\<lparr>intervalID := Some i\<rparr>\<rparr>)"

text \<open>The \<open>i\<close>-th pending \<open>settings.put\<close> settles; on success the exported
  \<open>set_update_interval\<close> reschedules (lines 191--195); a rejection is not handled.\<close>

definition put_settled :: "nat \<Rightarrow> bool \<Rightarrow> 'l sys \<Rightarrow> 'l sys" where
  "put_settled i ok s =
     (let seconds = puts s ! i;
          s1 = s\<lparr>puts := remove_at i (puts s)\<rparr>
      in if ok then schedule_interval (settings_put settings_key (int_to_string seconds) s1)
         else s1)"

subsection \<open>The exported API (lines 176--199) and module initialisation (line 174)\<close>

definition get_cached_events :: "'l sys \<Rightarrow> event list \<times> event list" where
  "get_cached_events s = (current_set_events (poller s), previous_set_events (poller s))"

definition add_callback :: "'l \<Rightarrow> 'l sys \<Rightarrow> 'l sys" where
  "add_callback f s =
     (let s1 = s\<lparr>poller := (poller s)\<lparr>listeners := add_listener (listeners (poller s)) f\<rparr>\<rparr>
      in if \<not> id_truthy (intervalID (poller s1)) then schedule_interval s1 else s1)"

definition get_update_interval :: "'l sys \<Rightarrow> jsnum" where
  "get_update_interval s = update_interval (poller s)"

text \<open>The module-level variables with their initial values (lines 7--25).\<close>

definition events_init :: "string \<times> string \<Rightarrow> (string \<rightharpoonup> string) \<Rightarrow> 'l sys" where
  "events_init conn st =
     \<lparr>poller = \<lparr>listeners = [],
                current_set_events = [], current_idle_events = [], current_running_events = [],
                previous_set_events = [], previous_idle_events = [], previous_running_events = [],
                update_interval = Undefined, intervalID = None\<rparr>,
      timers = [], next_timer = 1, store = st, connection = conn,
      inflight = [], puts = [], load_pending = False, calls = []\<rparr>"

text \<open>\<open>load_update_interval();\<close> when the module is defined (line 174): the
  \<open>settings.get\<close> of line 148 is issued and pending; the module then returns its API.\<close>

definition events_start :: "string \<times> string \<Rightarrow> (string \<rightharpoonup> string) \<Rightarrow> 'l sys" where
  "events_start conn st = (events_init conn st)\<lparr>load_pending := True\<rparr>"

subsection \<open>The event loop\<close>

inductive step :: "json_parser \<Rightarrow> 'l sys \<Rightarrow> 'l sys \<Rightarrow> bool" for json_parse where
  timer_tick: "t \<in> set (timers s) \<Longrightarrow> step json_parse s (cache_update s)"
| fetch_settled: "i < length (inflight s) \<Longrightarrow>
    step json_parse s (tick_settled json_parse ok i r_set r_idle r_running s)"
| fetch_settled_live: "i < length (inflight s) \<Longrightarrow> id_truthy (intervalID (poller s)) \<Longrightarrow>
    tick_settled_live json_parse react i r_set r_idle r_running s = Some t \<Longrightarrow> step json_parse s t"
| call_add_callback: "step json_parse s (add_callback f s)"
| call_set_update_interval: "step json_parse s (set_update_interval seconds s)"
| settings_put_settled: "i < length (puts s) \<Longrightarrow> step json_parse s (put_settled i ok s)"
| settings_get_settled: "load_pending s \<Longrightarrow> step json_parse s (load_update_interval_settled s)"
| settings_get_failed: "load_pending s \<Longrightarrow> step json_parse s (load_update_interval_failed s)"
| connection_changed: "step json_parse s (s\<lparr>connection := c\<rparr>)"

inductive reachable :: "json_parser \<Rightarrow> 'l sys \<Rightarrow> bool" for json_parse where
  start: "reachable json_parse (events_start conn st)"
| run: "reachable json_parse s \<Longrightarrow> step json_parse s t \<Longrightarrow> reachable json_parse t"

subsection \<open>Invariants\<close>

text \<open>
  \<open>timer_inv\<close>: timer ids are positive, and the browser runs a timer exactly when
  \<open>intervalID\<close> is set, and then only that one. \<open>listeners_inv\<close>: the registry has
  no duplicates.
\<close>

definition timer_inv :: "'l sys \<Rightarrow> bool" where
  "timer_inv s \<longleftrightarrow> 0 < next_timer s \<and>
     (intervalID (poller s) = None \<longrightarrow> timers s = []) \<and>
     (\<forall>i. intervalID (poller s) = Some i \<longrightarrow> 0 < i \<and> map fst (timers s) = [i])"

text \<open>
  \<open>poll_inv\<close>: once a listener is registered, a timer is scheduled. \<open>calls_inv\<close>: every
  recorded listener invocation was made to a registered listener with two snapshots the
  detector tells apart. \<open>delay_inv\<close>: every running timer has a delay in the range of a
  WebIDL \<open>long\<close> that the browser accepts, \<open>0 .. 2^31 - 1\<close>.
\<close>

definition poll_inv :: "'l sys \<Rightarrow> bool" where
  "poll_inv s \<longleftrightarrow> (listeners (poller s) \<noteq> [] \<longrightarrow> intervalID (poller s) \<noteq> None)"

definition calls_inv :: "'l sys \<Rightarrow> bool" where
  "calls_inv s \<longleftrightarrow>
     (\<forall>(f, cur, prev) \<in> set (calls s).
        f \<in> set (listeners (poller s)) \<and> has_changes (detect_changes cur prev))"

definition delay_inv :: "'l sys \<Rightarrow> bool" where
  "delay_inv s \<longleftrightarrow> (\<forall>t \<in> set (timers s). 0 \<le> snd t \<and> snd t \<le> 2147483647)"

lemma schedule_interval_eq:
  assumes "timer_inv s"
  shows "schedule_interval s =
           s\<lparr>poller := (poller s)\<lparr>intervalID := Some (next_timer s)\<rparr>,
             timers := [(next_timer s, timer_delay (update_interval (poller s)))],
             next_timer := Suc (next_timer s)\<rparr>"
proof (cases "intervalID (poller s)")
  case None
  with assms show ?thesis
    by (simp add: schedule_interval_def setInterval_def timer_inv_def)
next
  case (Some i)
  with assms have "filter (\<lambda>t. fst t \<noteq> i) (timers s) = []"
    by (auto simp: timer_inv_def filter_empty_conv dest: arg_cong [where f = set])
  with Some assms show ?thesis
    by (simp add: schedule_interval_def setInterval_def clearInterval_def id_truthy_def timer_inv_def)
qed

lemma timer_inv_schedule_interval: "timer_inv s \<Longrightarrow> timer_inv (schedule_interval s)"
  by (simp add: schedule_interval_eq timer_inv_def)

lemma cache_update_settle_frame:
  "cache_update_settle p ok a b c m = (m', cs, r) \<Longrightarrow>
   listeners m' = listeners m \<and> intervalID m' = intervalID m \<and> update_interval m' = update_interval m"
  by (auto simp: cache_update_settle_def cache_update_then_def rotate_cache_def Let_def
           split: sum.splits prod.splits if_splits)

lemma timer_inv_tick_settled: "timer_inv s \<Longrightarrow> timer_inv (tick_settled p ok i a b c s)"
  by (auto simp: tick_settled_def timer_inv_def dest!: cache_update_settle_frame split: prod.splits)

lemma timer_inv_add_callback: "timer_inv s \<Longrightarrow> timer_inv (add_callback f s)"
proof -
  assume inv: "timer_inv s"
  let ?s1 = "s\<lparr>poller := (poller s)\<lparr>listeners := add_listener (listeners (poller s)) f\<rparr>\<rparr>"
  have "timer_inv ?s1" using inv by (simp add: timer_inv_def)
  then show ?thesis
    by (simp add: add_callback_def Let_def timer_inv_schedule_interval)
qed

lemma timer_inv_put_settled: "timer_inv s \<Longrightarrow> timer_inv (put_settled i ok s)"
proof -
  assume inv: "timer_inv s"
  let ?s1 = "s\<lparr>puts := remove_at i (puts s)\<rparr>"
  have "timer_inv (settings_put settings_key (int_to_string (puts s ! i)) ?s1)"
    using inv by (simp add: timer_inv_def settings_put_def)
  moreover have "timer_inv ?s1" using inv by (simp add: timer_inv_def)
  ultimately show ?thesis
    by (simp add: put_settled_def Let_def timer_inv_schedule_interval)
qed

lemma cache_update_settle_live_frame:
  assumes "cache_update_settle_live p react a b c m = Some (m', cs, r)"
  shows "intervalID m' = intervalID m \<and> update_interval m' = update_interval m \<and>
         set (listeners m) \<subseteq> set (listeners m') \<and>
         (distinct (listeners m) \<longrightarrow> distinct (listeners m')) \<and>
         (\<forall>(f, cur, prev) \<in> set cs. f \<in> set (listeners m') \<and> has_changes (detect_changes cur prev)) \<and>
         (current_set_events m' = current_set_events m \<and> previous_set_events m' = previous_set_events m \<or>
          (\<exists>x y z idles running. merge_snapshot p x y z = Inr (current_set_events m', idles, running) \<and>
             previous_set_events m' = current_set_events m))"
  using assms
  by (auto simp: cache_update_settle_live_def cache_update_then_live_def rotate_cache_def Let_def
                 bind_eq_Some_conv dispatch_ok_def
           split: sum.splits prod.splits if_splits dest!: dispatch_live_result)

lemma tick_settled_live_frame:
  assumes "tick_settled_live p react i a b c s = Some t"
  shows "timers t = timers s \<and> next_timer t = next_timer s \<and> store t = store s \<and>
         puts t = puts s \<and> intervalID (poller t) = intervalID (poller s) \<and>
         update_interval (poller t) = update_interval (poller s) \<and>
         set (listeners (poller s)) \<subseteq> set (listeners (poller t)) \<and>
         (distinct (listeners (poller s)) \<longrightarrow> distinct (listeners (poller t))) \<and>
         (\<exists>cs. calls t = calls s @ cs \<and>
            (\<forall>(f, cur, prev) \<in> set cs. f \<in> set (listeners (poller t)) \<and> has_changes (detect_changes cur prev))) \<and>
         (get_cached_events t = get_cached_events s \<or>
          (\<exists>x y z idles running. merge_snapshot p x y z = Inr (fst (get_cached_events t), idles, running) \<and>
             snd (get_cached_events t) = fst (get_cached_events s)))"
proof -
  obtain m' cs r where e: "cache_update_settle_live p react a b c (poller s) = Some (m', cs, r)"
    and t: "t = s\<lparr>poller := m', inflight := remove_at i (inflight s), calls := calls s @ cs\<rparr>"
    using assms by (auto simp: tick_settled_live_def)
  show ?thesis
    using cache_update_settle_live_frame [OF e] by (auto simp: t get_cached_events_def)
qed

lemma timer_inv_step: "step p s t \<Longrightarrow> timer_inv s \<Longrightarrow> timer_inv t"
proof (induction rule: step.induct)
  case (fetch_settled_live i s react r_set r_idle r_running t)
  then show ?case using tick_settled_live_frame [OF fetch_settled_live.hyps(3)] by (simp add: timer_inv_def)
next
  case (timer_tick tm s)
  then show ?case by (simp add: cache_update_def timer_inv_def)
next
  case (fetch_settled i s ok r_set r_idle r_running)
  from fetch_settled.prems show ?case by (rule timer_inv_tick_settled)
next
  case (call_add_callback s f)
  from call_add_callback.prems show ?case by (rule timer_inv_add_callback)
next
  case (call_set_update_interval s seconds)
  then show ?case by (simp add: set_update_interval_def timer_inv_def)
next
  case (settings_put_settled i s ok)
  from settings_put_settled.prems show ?case by (rule timer_inv_put_settled)
next
  case (settings_get_settled s)
  then show ?case by (simp add: load_update_interval_settled_def timer_inv_def)
next
  case (settings_get_failed s)
  then show ?case by (simp add: timer_inv_def)
next
  case (connection_changed s c)
  then show ?case by (simp add: timer_inv_def)
qed

lemma reachable_timer_inv: "reachable p s \<Longrightarrow> timer_inv s"
proof (induction rule: reachable.induct)
  case (start conn st)
  then show ?case by (simp add: events_start_def events_init_def timer_inv_def)
next
  case (run s t)
  then show ?case by (blast intro: timer_inv_step)
qed

definition listeners_inv :: "'l sys \<Rightarrow> bool" where
  "listeners_inv s \<longleftrightarrow> distinct (listeners (poller s))"

lemma schedule_interval_poller:
  "\<exists>i. poller (schedule_interval s) = (poller s)\<lparr>intervalID := Some i\<rparr>"
  by (auto simp: schedule_interval_def setInterval_def clearInterval_def Let_def
           split: option.splits prod.splits)

lemma schedule_interval_frame [simp]:
  "listeners (poller (schedule_interval s)) = listeners (poller s)"
  "update_interval (poller (schedule_interval s)) = update_interval (poller s)"
  "current_set_events (poller (schedule_interval s)) = current_set_events (poller s)"
  "previous_set_events (poller (schedule_interval s)) = previous_set_events (poller s)"
  "store (schedule_interval s) = store s"
  "calls (schedule_interval s) = calls s"
  "inflight (schedule_interval s) = inflight s"
  "puts (schedule_interval s) = puts s"
  using schedule_interval_poller [of s]
  by (auto simp: schedule_interval_def setInterval_def clearInterval_def Let_def
           split: option.splits prod.splits)

lemma listeners_inv_step: "step p s t \<Longrightarrow> listeners_inv s \<Longrightarrow> listeners_inv t"
proof (induction rule: step.induct)
  case (fetch_settled_live i s react r_set r_idle r_running t)
  then show ?case using tick_settled_live_frame [OF fetch_settled_live.hyps(3)] by (simp add: listeners_inv_def)
next
  case (fetch_settled i s ok r_set r_idle r_running)
  then show ?case
    by (auto simp: listeners_inv_def tick_settled_def dest!: cache_update_settle_frame
             split: prod.splits)
qed (auto simp: listeners_inv_def cache_update_def add_callback_def set_update_interval_def
                put_settled_def settings_put_def load_update_interval_settled_def Let_def)

lemma reachable_listeners_inv: "reachable p s \<Longrightarrow> listeners_inv s"
proof (induction rule: reachable.induct)
  case (start conn st)
  then show ?case by (simp add: events_start_def events_init_def listeners_inv_def)
next
  case (run s t)
  then show ?case by (blast intro: listeners_inv_step)
qed

lemma timer_inv_timers:
  "timer_inv s \<Longrightarrow> length (timers s) \<le> 1 \<and> (\<forall>t \<in> set (timers s). intervalID (poller s) = Some (fst t))"
  by (cases "intervalID (poller s)")
     (auto simp: timer_inv_def length_Suc_conv dest: arg_cong [where f = length] arg_cong [where f = set])

lemma cache_update_settle_calls:
  "cache_update_settle p ok a b c m = (m', cs, r) \<Longrightarrow>
   (f, cur, prev) \<in> set cs \<Longrightarrow>
   f \<in> set (listeners m) \<and> has_changes (detect_changes cur prev)"
  by (auto simp: cache_update_settle_def cache_update_then_def rotate_cache_def Let_def
           split: sum.splits prod.splits if_splits
           dest: notify_listeners_calls)

lemma schedule_interval_timers:
  "set (timers (schedule_interval s)) \<subseteq> set (timers s) \<union> {t. \<exists>d. snd t = timer_delay d}"
  by (auto simp: schedule_interval_def setInterval_def clearInterval_def Let_def
           split: option.splits prod.splits)

lemma step_timers:
  "step p s t \<Longrightarrow> set (timers t) \<subseteq> set (timers s) \<union> {t. \<exists>d. snd t = timer_delay d}"
proof (induction rule: step.induct)
  case (fetch_settled_live i s react r_set r_idle r_running t)
  then show ?case using tick_settled_live_frame [OF fetch_settled_live.hyps(3)] by simp
next
  case (fetch_settled i s ok r_set r_idle r_running)
  then show ?case by (auto simp: tick_settled_def split: prod.splits)
next
  case (call_add_callback s f)
  let ?s1 = "s\<lparr>poller := (poller s)\<lparr>listeners := add_listener (listeners (poller s)) f\<rparr>\<rparr>"
  have "set (timers (schedule_interval ?s1)) \<subseteq> set (timers s) \<union> {t. \<exists>d. snd t = timer_delay d}"
    using schedule_interval_timers [of ?s1] by simp
  then show ?case by (simp add: add_callback_def Let_def)
next
  case (settings_put_settled i s ok)
  let ?s1 = "s\<lparr>puts := remove_at i (puts s)\<rparr>"
  have "set (timers (schedule_interval (settings_put settings_key (int_to_string (puts s ! i)) ?s1)))
          \<subseteq> set (timers s) \<union> {t. \<exists>d. snd t = timer_delay d}"
    using schedule_interval_timers [of "settings_put settings_key (int_to_string (puts s ! i)) ?s1"]
    by (simp add: settings_put_def)
  then show ?case by (auto simp: put_settled_def Let_def)
qed (auto simp: cache_update_def set_update_interval_def load_update_interval_settled_def)

lemma reachable_delay_inv: "reachable p s \<Longrightarrow> delay_inv s"
proof (induction rule: reachable.induct)
  case (start conn st)
  then show ?case by (simp add: events_start_def events_init_def delay_inv_def)
next
  case (run s t)
  then show ?case
    using step_timers [OF run.hyps(2)] timer_delay_bounds
    unfolding delay_inv_def by fastforce
qed

lemma calls_inv_step: "step p s t \<Longrightarrow> calls_inv s \<Longrightarrow> calls_inv t"
proof (induction rule: step.induct)
  case (fetch_settled_live i s react r_set r_idle r_running t)
  obtain cs where c: "calls t = calls s @ cs"
    and n: "\<forall>(f, cur, prev) \<in> set cs. f \<in> set (listeners (poller t)) \<and> has_changes (detect_changes cur prev)"
    and l: "set (listeners (poller s)) \<subseteq> set (listeners (poller t))"
    using tick_settled_live_frame [OF fetch_settled_live.hyps(3)] by blast
  show ?case using fetch_settled_live.prems c n l by (auto simp: calls_inv_def)
next
  case (fetch_settled i s ok r_set r_idle r_running)
  obtain m' cs r where e: "cache_update_settle p ok r_set r_idle r_running (poller s) = (m', cs, r)"
    by (cases "cache_update_settle p ok r_set r_idle r_running (poller s)") auto
  have l: "listeners m' = listeners (poller s)"
    using cache_update_settle_frame [OF e] by simp
  show ?case
    using fetch_settled.prems cache_update_settle_calls [OF e]
    by (auto simp: calls_inv_def tick_settled_def e l)
qed (auto simp: calls_inv_def cache_update_def add_callback_def set_update_interval_def
                put_settled_def settings_put_def load_update_interval_settled_def Let_def)

lemma reachable_calls_inv: "reachable p s \<Longrightarrow> calls_inv s"
proof (induction rule: reachable.induct)
  case (start conn st)
  then show ?case by (simp add: events_start_def events_init_def calls_inv_def)
next
  case (run s t)
  then show ?case by (blast intro: calls_inv_step)
qed

lemma schedule_interval_intervalID [simp]:
  "intervalID (poller (schedule_interval s)) = Some (next_timer s)"
  by (auto simp: schedule_interval_def setInterval_def clearInterval_def Let_def
           split: option.splits prod.splits)

lemma add_callback_intervalID: "intervalID (poller (add_callback f s)) \<noteq> None"
  by (auto simp: add_callback_def Let_def id_truthy_def split: option.splits)

lemma poll_inv_step: "step p s t \<Longrightarrow> poll_inv s \<Longrightarrow> poll_inv t"
proof (induction rule: step.induct)
  case (fetch_settled_live i s react r_set r_idle r_running t)
  then show ?case using tick_settled_live_frame [OF fetch_settled_live.hyps(3)] by (auto simp: poll_inv_def id_truthy_def split: option.splits)
next
  case (fetch_settled i s ok r_set r_idle r_running)
  then show ?case
    by (auto simp: poll_inv_def tick_settled_def dest!: cache_update_settle_frame split: prod.splits)
next
  case (call_add_callback s f)
  then show ?case by (simp add: poll_inv_def add_callback_intervalID)
next
  case (settings_put_settled i s ok)
  then show ?case
    by (auto simp: poll_inv_def put_settled_def Let_def settings_put_def)
qed (auto simp: poll_inv_def cache_update_def set_update_interval_def load_update_interval_settled_def)

lemma reachable_poll_inv: "reachable p s \<Longrightarrow> poll_inv s"
proof (induction rule: reachable.induct)
  case (start conn st)
  then show ?case by (simp add: events_start_def events_init_def poll_inv_def)
next
  case (run s t)
  then show ?case by (blast intro: poll_inv_step)
qed

lemma reachable_listener_timer:
  "reachable p s \<Longrightarrow> listeners (poller s) \<noteq> [] \<Longrightarrow> \<exists>tm. tm \<in> set (timers s)"
  using reachable_poll_inv [of p s] reachable_timer_inv [of p s]
  by (cases "timers s") (auto simp: poll_inv_def timer_inv_def)

subsection \<open>The cycle\<close>

lemma cache_update_settle_fetch_failure:
  "isl r_set \<or> isl r_idle \<or> isl r_running \<Longrightarrow>
   \<exists>e. cache_update_settle p ok r_set r_idle r_running m = (m, [], Some e)"
  by (auto simp: cache_update_settle_def promise_all3_def split: sum.splits)

lemma cache_update_settle_merge_failure:
  "merge_snapshot p setStatus idleStatus runningStatus = Inl e \<Longrightarrow>
   cache_update_settle p ok (Inr setStatus) (Inr idleStatus) (Inr runningStatus) m = (m, [], Some e)"
  by (simp add: cache_update_settle_def promise_all3_def cache_update_then_def)

lemma cache_update_settle_success:
  "merge_snapshot p setStatus idleStatus runningStatus = Inr (sets, idles, running) \<Longrightarrow>
   cache_update_settle p ok (Inr setStatus) (Inr idleStatus) (Inr runningStatus) m =
     (let m' = rotate_cache m sets idles running
      in if has_changes (detect_changes (current_set_events m') (previous_set_events m'))
         then (m', notify_listeners ok (listeners m') (current_set_events m') (previous_set_events m'))
         else (m', [], None))"
  by (simp add: cache_update_settle_def promise_all3_def cache_update_then_def Let_def
           split: prod.splits)

lemma tick_settled_eq:
  "cache_update_settle p ok r_set r_idle r_running (poller s) = (m', cs, r) \<Longrightarrow>
   tick_settled p ok i r_set r_idle r_running s =
     s\<lparr>poller := m', inflight := remove_at i (inflight s), calls := calls s @ cs\<rparr>"
  by (simp add: tick_settled_def)

lemma tick_settled_calls_success:
  assumes "merge_snapshot p setStatus idleStatus runningStatus = Inr (sets, idles, running)"
      and "has_changes (detect_changes sets (current_set_events (poller s)))"
      and "list_all ok (listeners (poller s))"
  shows "calls (tick_settled p ok i (Inr setStatus) (Inr idleStatus) (Inr runningStatus) s) =
           calls s @ map (\<lambda>f. (f, sets, current_set_events (poller s))) (listeners (poller s))"
  using assms
  by (simp add: tick_settled_def cache_update_settle_success notify_listeners_all_ok Let_def
                rotate_cache_def)


subsection \<open>Sample states\<close>

abbreviation conn0 :: "string \<times> string" where "conn0 \<equiv> (''https://msam'', ''k'')"
abbreviation S0 :: "nat sys" where "S0 \<equiv> events_start conn0 Map.empty"
abbreviation S1 :: "nat sys" where "S1 \<equiv> add_callback 0 S0"

lemmas sys_eval = events_start_def events_init_def add_callback_def add_listener_def schedule_interval_def
  setInterval_def clearInterval_def id_truthy_def Let_def timer_delay_def webidl_long_def

lemma S1_eq:
  "S1 = \<lparr>poller = \<lparr>listeners = [0],
                current_set_events = [], current_idle_events = [], current_running_events = [],
                previous_set_events = [], previous_idle_events = [], previous_running_events = [],
                update_interval = Undefined, intervalID = Some 1\<rparr>,
      timers = [(1, 0)], next_timer = 2, store = Map.empty, connection = conn0,
      inflight = [], puts = [], load_pending = True, calls = []\<rparr>"
  by (simp add: sys_eval)

subsection \<open>Properties of the poller\<close>

text \<open>C1: a tick whose three requests resolve and whose merge succeeds rotates the cache
  (the current snapshot becomes the previous one, the merged events the current one) and
  calls the listeners, with the new and the old snapshot, exactly when the detector reports
  a change.\<close>

theorem tick_settled_success:
  assumes "merge_snapshot p setStatus idleStatus runningStatus = Inr (sets, idles, running)"
  shows "poller (tick_settled p ok i (Inr setStatus) (Inr idleStatus) (Inr runningStatus) s) =
           rotate_cache (poller s) sets idles running \<and>
         get_cached_events (tick_settled p ok i (Inr setStatus) (Inr idleStatus) (Inr runningStatus) s) =
           (sets, current_set_events (poller s)) \<and>
         calls (tick_settled p ok i (Inr setStatus) (Inr idleStatus) (Inr runningStatus) s) =
           calls s @ (if has_changes (detect_changes sets (current_set_events (poller s)))
                      then fst (notify_listeners ok (listeners (poller s)) sets
                                  (current_set_events (poller s)))
                      else [])"
  using cache_update_settle_success [OF assms, of ok "poller s"]
  by (auto simp: tick_settled_def get_cached_events_def rotate_cache_def Let_def
           split: prod.splits if_splits)

theorem tick_settled_success_witness:
  "calls (tick_settled sample_parse (\<lambda>_. True) 0 (Inr sets_r1)
            (Inr [\<lparr>arn = jstr ''r1'', data = idle_json\<rparr>])
            (Inr [\<lparr>arn = jstr ''r1'', data = running_json\<rparr>]) S1) =
     [(0, [event_r1\<lparr>detail := Some (sample_detail\<lparr>idle_state := jstr ''RUNNING''\<rparr>)\<rparr>], [])]"
  using tick_settled_success [OF merge_sample_override, of "\<lambda>_. True" 0 S1]
  by (simp add: S1_eq detect_changes_def has_changes_def key_alarm_id_def)

text \<open>C5: when any of the three requests rejects, the tick changes neither snapshot and calls
  no listener.\<close>

theorem tick_settled_fetch_failure:
  "isl r_set \<or> isl r_idle \<or> isl r_running \<Longrightarrow>
   poller (tick_settled p ok i r_set r_idle r_running s) = poller s \<and>
   calls (tick_settled p ok i r_set r_idle r_running s) = calls s"
proof -
  assume "isl r_set \<or> isl r_idle \<or> isl r_running"
  then obtain e where
    "cache_update_settle p ok r_set r_idle r_running (poller s) = (poller s, [], Some e)"
    using cache_update_settle_fetch_failure by blast
  then show ?thesis by (simp add: tick_settled_def)
qed

theorem tick_settled_fetch_failure_witness:
  "poller (tick_settled sample_parse (\<lambda>_. True) 0 (Inr sets_r1) (Inr []) (Inl FetchError) S1) =
     poller S1 \<and>
   calls (tick_settled sample_parse (\<lambda>_. True) 0 (Inr sets_r1) (Inr []) (Inl FetchError) S1) =
     calls S1"
  using tick_settled_fetch_failure [of "Inr sets_r1" "Inr []" "Inl FetchError"] by simp

text \<open>C6: a status record whose \<open>data\<close> is not valid JSON makes the whole tick a no-op:
  no rotation and no notification, although the other records and the grouped events were
  fine.\<close>

theorem tick_settled_parse_failure:
  "(\<exists>r \<in> set idleStatus \<union> set runningStatus. p (data r) = None) \<Longrightarrow>
   poller (tick_settled p ok i (Inr setStatus) (Inr idleStatus) (Inr runningStatus) s) = poller s \<and>
   calls (tick_settled p ok i (Inr setStatus) (Inr idleStatus) (Inr runningStatus) s) = calls s"
proof -
  assume "\<exists>r \<in> set idleStatus \<union> set runningStatus. p (data r) = None"
  then have "merge_snapshot p setStatus idleStatus runningStatus = Inl SyntaxError"
    by (simp add: merge_snapshot_SyntaxError_iff)
  then show ?thesis by (simp add: tick_settled_def cache_update_settle_merge_failure)
qed

theorem tick_settled_parse_failure_witness:
  "poller (tick_settled sample_parse (\<lambda>_. True) 0 (Inr sets_r1)
             (Inr [\<lparr>arn = jstr ''r2'', data = ''{bad''\<rparr>]) (Inr []) S1) = poller S1"
  using tick_settled_parse_failure [where idleStatus = "[\<lparr>arn = jstr ''r2'', data = ''{bad''\<rparr>]"
      and runningStatus = "[]" and p = sample_parse and ok = "\<lambda>_. True" and i = 0
      and setStatus = sets_r1 and s = S1]
  by simp



lemma reachable_S1: "reachable p S1"
  by (rule reachable.run [OF reachable.start step.call_add_callback])

text \<open>C8: in every reachable state at most one interval timer is active, and it is the one
  recorded in \<open>intervalID\<close>: rescheduling never leaves an old timer running.\<close>

theorem reachable_single_timer:
  "reachable p s \<Longrightarrow>
   length (timers s) \<le> 1 \<and> (\<forall>t \<in> set (timers s). intervalID (poller s) = Some (fst t))"
  by (rule timer_inv_timers) (rule reachable_timer_inv)

theorem reachable_single_timer_witness:
  "length (timers S1) \<le> 1 \<and> timers S1 = [(1, 0)] \<and> intervalID (poller S1) = Some 1"
  using reachable_single_timer [OF reachable_S1 [of sample_parse]] by (simp add: S1_eq)

lemma add_callback_truthy:
  "timer_inv s \<Longrightarrow> id_truthy (intervalID (poller (add_callback f s)))"
  by (auto simp: add_callback_def Let_def schedule_interval_eq timer_inv_def id_truthy_def
           split: option.splits)

lemma add_callback_listeners [simp]:
  "listeners (poller (add_callback f s)) = add_listener (listeners (poller s)) f"
  by (simp add: add_callback_def Let_def)

text \<open>C11: in every reachable state, registering the same callback a second time changes
  nothing: neither the registry nor the scheduler.\<close>

theorem add_callback_idempotent:
  "reachable p s \<Longrightarrow> add_callback f (add_callback f s) = add_callback f s"
proof -
  assume "reachable p s"
  then have "id_truthy (intervalID (poller (add_callback f s)))"
    by (blast intro: add_callback_truthy reachable_timer_inv)
  moreover have "f \<in> set (listeners (poller (add_callback f s)))" by simp
  ultimately show ?thesis
    by (simp add: add_callback_def [of f "add_callback f s"] add_listener_def Let_def)
qed

theorem add_callback_idempotent_witness:
  "add_callback 0 S1 = S1 \<and> listeners (poller S1) = [0]"
proof
  show "add_callback 0 S1 = S1"
    by (rule add_callback_idempotent [OF reachable.start [of sample_parse conn0 Map.empty]])
  show "listeners (poller S1) = [0]"
    by (simp add: S1_eq)
qed

text \<open>C9: in every reachable state the listener registry holds no callback twice.\<close>

theorem reachable_distinct_listeners:
  "reachable p s \<Longrightarrow> distinct (listeners (poller s))"
  using reachable_listeners_inv by (auto simp: listeners_inv_def)

theorem reachable_distinct_listeners_witness:
  "distinct (listeners (poller (add_callback 1 S1)))"
  using reachable_distinct_listeners [OF reachable.run [OF reachable_S1 step.call_add_callback,
      of sample_parse 1]] .


abbreviation S2 :: "nat sys" where "S2 \<equiv> add_callback 1 S1"

lemma S2_eq:
  "S2 = \<lparr>poller = \<lparr>listeners = [0, 1],
                current_set_events = [], current_idle_events = [], current_running_events = [],
                previous_set_events = [], previous_idle_events = [], previous_running_events = [],
                update_interval = Undefined, intervalID = Some 1\<rparr>,
      timers = [(1, 0)], next_timer = 2, store = Map.empty, connection = conn0,
      inflight = [], puts = [], load_pending = True, calls = []\<rparr>"
  by (simp only: S1_eq) (simp add: sys_eval)

abbreviation sample_idle :: "string status list" where
  "sample_idle \<equiv> [\<lparr>arn = jstr ''r1'', data = idle_json\<rparr>]"
abbreviation sample_running :: "string status list" where
  "sample_running \<equiv> [\<lparr>arn = jstr ''r1'', data = running_json\<rparr>]"
abbreviation merged_r1 :: event where
  "merged_r1 \<equiv> event_r1\<lparr>detail := Some (sample_detail\<lparr>idle_state := jstr ''RUNNING''\<rparr>)\<rparr>"

text \<open>C10: when a tick reports a change and no listener throws, every registered listener is
  called exactly once, in registration order, with the new and the old snapshot.\<close>

theorem tick_notifies_each_listener_once:
  assumes "reachable p s"
      and "merge_snapshot p setStatus idleStatus runningStatus = Inr (sets, idles, running)"
      and "has_changes (detect_changes sets (current_set_events (poller s)))"
      and "list_all ok (listeners (poller s))"
  shows "calls (tick_settled p ok i (Inr setStatus) (Inr idleStatus) (Inr runningStatus) s) =
           calls s @ map (\<lambda>f. (f, sets, current_set_events (poller s))) (listeners (poller s)) \<and>
         distinct (listeners (poller s))"
proof -
  have "distinct (listeners (poller s))"
    using reachable_listeners_inv [OF assms(1)] by (simp add: listeners_inv_def)
  with assms(2-4) show ?thesis
    by (simp add: tick_settled_def cache_update_settle_success notify_listeners_all_ok Let_def
                  rotate_cache_def)
qed

theorem tick_notifies_each_listener_once_witness:
  "calls (tick_settled sample_parse (\<lambda>_. True) 0 (Inr sets_r1) (Inr sample_idle) (Inr sample_running)
            (add_callback 1 S1)) =
     [(0, [merged_r1], []), (1, [merged_r1], [])]"
proof -
  have r: "reachable sample_parse (add_callback 1 S1)"
    by (rule reachable.run [OF reachable_S1 step.call_add_callback])
  have l: "listeners (poller (add_callback 1 S1)) = [0, 1]"
    by (simp only: S2_eq) simp
  have c: "current_set_events (poller (add_callback 1 S1)) = []" "calls (add_callback 1 S1) = []"
    by (simp_all only: S2_eq) simp_all
  show ?thesis
    using tick_notifies_each_listener_once [OF r merge_sample_override, of "\<lambda>_. True" 0] l c
    by (simp add: detect_changes_def has_changes_def key_alarm_id_def)
qed

text \<open>C13: a listener that throws ends the dispatch: the listeners registered after it are not
  called in this cycle, while the cache has already been rotated.\<close>

theorem tick_listener_throw_stops_dispatch:
  assumes "merge_snapshot p setStatus idleStatus runningStatus = Inr (sets, idles, running)"
      and "has_changes (detect_changes sets (current_set_events (poller s)))"
      and "listeners (poller s) = xs @ f # ys" and "list_all ok xs" and "\<not> ok f"
  shows "calls (tick_settled p ok i (Inr setStatus) (Inr idleStatus) (Inr runningStatus) s) =
           calls s @ map (\<lambda>g. (g, sets, current_set_events (poller s))) (xs @ [f]) \<and>
         poller (tick_settled p ok i (Inr setStatus) (Inr idleStatus) (Inr runningStatus) s) =
           rotate_cache (poller s) sets idles running"
  using assms
  by (simp add: tick_settled_def cache_update_settle_success notify_listeners_throw Let_def
                rotate_cache_def)

theorem tick_listener_throw_stops_dispatch_witness:
  "calls (tick_settled sample_parse (\<lambda>l. l \<noteq> 0) 0 (Inr sets_r1) (Inr sample_idle)
            (Inr sample_running) (add_callback 1 S1)) =
     [(0, [merged_r1], [])]"
proof -
  have l: "listeners (poller (add_callback 1 S1)) = [] @ 0 # [1]"
    by (simp only: S2_eq) simp
  have c: "current_set_events (poller (add_callback 1 S1)) = []" "calls (add_callback 1 S1) = []"
    by (simp_all only: S2_eq) simp_all
  show ?thesis
    using tick_listener_throw_stops_dispatch [OF merge_sample_override _ l, of "\<lambda>l. l \<noteq> 0" 0] c
    by (simp add: detect_changes_def has_changes_def key_alarm_id_def)
qed


text \<open>C17: a callback registered in a reachable state while the stored interval is still
  being loaded (the interval \<open>undefined\<close>, no timer running) starts a timer with delay 0,
  and when the load settles the timer is not rescheduled: it keeps polling without delay
  while the in-memory interval becomes the stored one.\<close>

theorem add_callback_before_load_polls_without_delay:
  assumes "reachable p s" and "load_pending s" and "update_interval (poller s) = Undefined"
      and "\<not> id_truthy (intervalID (poller s))"
  shows "reachable p (load_update_interval_settled (add_callback f s)) \<and>
         timers (add_callback f s) = [(next_timer s, 0)] \<and>
         timers (load_update_interval_settled (add_callback f s)) = [(next_timer s, 0)] \<and>
         get_update_interval (load_update_interval_settled (add_callback f s)) =
           times_1000 (parseInt (store s settings_key))"
proof -
  have inv: "timer_inv (s\<lparr>poller := (poller s)\<lparr>listeners := add_listener (listeners (poller s)) f\<rparr>\<rparr>)"
    using reachable_timer_inv [OF assms(1)] by (simp add: timer_inv_def)
  have t: "timers (add_callback f s) = [(next_timer s, 0)]"
    using assms(3,4) schedule_interval_eq [OF inv]
    by (simp add: add_callback_def Let_def timer_delay_def webidl_long_def)
  have "load_pending (add_callback f s)"
    using assms(2) by (simp add: add_callback_def Let_def schedule_interval_def setInterval_def
                                 clearInterval_def split: option.splits prod.splits)
  then have "reachable p (load_update_interval_settled (add_callback f s))"
    by (rule reachable.run [OF reachable.run [OF assms(1) step.call_add_callback] step.settings_get_settled])
  moreover have "store (add_callback f s) = store s"
    by (simp add: add_callback_def Let_def schedule_interval_def setInterval_def
                  clearInterval_def split: option.splits prod.splits)
  ultimately show ?thesis
    using t by (simp add: load_update_interval_settled_def get_update_interval_def settings_get_def)
qed

theorem add_callback_before_load_polls_without_delay_witness:
  "timers (add_callback (0::nat) S0) = [(1, 0)] \<and>
   timers (load_update_interval_settled (add_callback (0::nat) S0)) = [(1, 0)]"
proof -
  have h: "load_pending S0" "update_interval (poller S0) = Undefined"
          "\<not> id_truthy (intervalID (poller S0))" "next_timer S0 = 1"
    by (simp_all add: events_start_def events_init_def id_truthy_def)
  show ?thesis
    using add_callback_before_load_polls_without_delay [OF reachable.start h(1-3), of sample_parse 0]
    by (simp add: h(4))
qed

text \<open>A tick issues the three requests of the specification, in this order, against the
  current connection's URL with its API key.\<close>

theorem cache_update_requests:
  "get_current s = (url, api_key) \<Longrightarrow>
   inflight (cache_update s) =
     inflight s @ [[(url @ ''/cloudwatch/events/state/set/groups'', api_key),
                    (url @ ''/channels/state/idle'', api_key),
                    (url @ ''/channels/state/running'', api_key)]]"
  by (simp add: cache_update_def retrieve_for_state_def retrieve_for_running_status_def)

theorem cache_update_requests_witness:
  "inflight (cache_update S0) =
     [[(''https://msam/cloudwatch/events/state/set/groups'', ''k''),
       (''https://msam/channels/state/idle'', ''k''), (''https://msam/channels/state/running'', ''k'')]]"
  using cache_update_requests [of S0 "''https://msam''" "''k''"]
  by (simp add: get_current_def events_start_def events_init_def)

lemma put_settled_True_eq:
  assumes "timer_inv s"
  shows "put_settled i True s =
           schedule_interval (settings_put settings_key (int_to_string (puts s ! i))
                               (s\<lparr>puts := remove_at i (puts s)\<rparr>))"
    and "timer_inv (settings_put settings_key (int_to_string (puts s ! i))
                     (s\<lparr>puts := remove_at i (puts s)\<rparr>))"
  using assms by (simp_all add: put_settled_def Let_def timer_inv_def settings_put_def)

text \<open>C18: when the settings store confirms \<open>set_update_interval\<close>, the old timer is
  replaced by one timer whose delay is the current interval, and the store holds the
  seconds as a decimal string.\<close>

theorem put_settled_reschedules:
  assumes "reachable p s" and "i < length (puts s)"
  shows "timers (put_settled i True s) = [(next_timer s, timer_delay (update_interval (poller s)))] \<and>
         intervalID (poller (put_settled i True s)) = Some (next_timer s) \<and>
         store (put_settled i True s) settings_key = Some (int_to_string (puts s ! i))"
  using put_settled_True_eq [OF reachable_timer_inv [OF assms(1)]]
  by (simp add: schedule_interval_eq settings_put_def)

theorem put_settled_reschedules_witness:
  "timers (put_settled 0 True (set_update_interval 60 S1)) = [(2, 60000)] \<and>
   store (put_settled 0 True (set_update_interval 60 S1)) settings_key = Some (int_to_string 60)"
proof -
  have r: "reachable sample_parse (set_update_interval 60 S1)"
    by (rule reachable.run [OF reachable_S1 step.call_set_update_interval])
  show ?thesis
    using put_settled_reschedules [OF r, of 0]
    by (simp only: S1_eq)
       (simp add: set_update_interval_def timer_delay_def webidl_long_def)
qed

text \<open>C19: when the settings store rejects \<open>set_update_interval\<close>, the in-memory interval
  already holds the new value while the timer, the store and the pending operations are
  as before: nothing is rescheduled and the failure is not reported to the caller.\<close>

theorem set_update_interval_put_rejected:
  "get_update_interval (put_settled (length (puts s)) False (set_update_interval seconds s)) =
     Num (seconds * 1000) \<and>
   timers (put_settled (length (puts s)) False (set_update_interval seconds s)) = timers s \<and>
   intervalID (poller (put_settled (length (puts s)) False (set_update_interval seconds s))) =
     intervalID (poller s) \<and>
   store (put_settled (length (puts s)) False (set_update_interval seconds s)) = store s \<and>
   puts (put_settled (length (puts s)) False (set_update_interval seconds s)) = puts s"
  by (simp add: put_settled_def set_update_interval_def get_update_interval_def remove_at_def)

theorem set_update_interval_put_rejected_witness:
  "get_update_interval (put_settled 0 False (set_update_interval 30 S1)) = Num 30000 \<and>
   timers (put_settled 0 False (set_update_interval 30 S1)) = [(1, 0)]"
  using set_update_interval_put_rejected [of S1 30] by (simp add: S1_eq)

text \<open>C14: an interval confirmed by the settings store is read back by the next start of the
  module as the same number of seconds, in milliseconds.\<close>

theorem interval_persistence_roundtrip:
  "i < length (puts s) \<Longrightarrow>
   get_update_interval (load_update_interval_settled (events_start conn (store (put_settled i True s))))
     = Num (puts s ! i * 1000)"
  by (simp add: put_settled_def Let_def settings_put_def load_update_interval_settled_def
                get_update_interval_def settings_get_def events_start_def events_init_def parseInt_int_to_string)

theorem interval_persistence_roundtrip_witness:
  "get_update_interval (load_update_interval_settled
     (events_start conn0 (store (put_settled 0 True (set_update_interval 45 S1))) :: nat sys)) =
   Num 45000"
  using interval_persistence_roundtrip [of 0 "set_update_interval 45 S1" conn0]
  by (simp add: set_update_interval_def S1_eq)


text \<open>C15: the timer installed by \<open>schedule_interval\<close> has a delay between 0 and
  \<open>2 ^ 31 - 1\<close> ms, equal to the interval whenever the interval lies in that range.\<close>

theorem schedule_interval_delay:
  assumes "reachable p s"
  shows "timers (schedule_interval s) = [(next_timer s, timer_delay (update_interval (poller s)))] \<and>
         0 \<le> timer_delay (update_interval (poller s)) \<and>
         timer_delay (update_interval (poller s)) \<le> 2147483647 \<and>
         (\<forall>n. update_interval (poller s) = Num n \<longrightarrow> 0 \<le> n \<longrightarrow> n < 2147483648 \<longrightarrow>
              timer_delay (update_interval (poller s)) = n)"
  using schedule_interval_eq [OF reachable_timer_inv [OF assms]] timer_delay_bounds
  by (simp add: timer_delay_Num_in_range)

theorem schedule_interval_delay_witness:
  "timers (schedule_interval (set_update_interval 60 S0)) = [(1, 60000)]"
proof -
  have r: "reachable sample_parse (set_update_interval 60 S0)"
    by (rule reachable.run [OF reachable.start step.call_set_update_interval])
  show ?thesis
    using schedule_interval_delay [OF r]
    by (simp add: set_update_interval_def events_start_def events_init_def)
qed

lemma put_settled_True_state:
  assumes "timer_inv s"
  shows "put_settled i True s =
           s\<lparr>poller := (poller s)\<lparr>intervalID := Some (next_timer s)\<rparr>,
             timers := [(next_timer s, timer_delay (update_interval (poller s)))],
             next_timer := Suc (next_timer s),
             store := (store s)(settings_key \<mapsto> int_to_string (puts s ! i)),
             puts := remove_at i (puts s)\<rparr>"
  using put_settled_True_eq [OF assms, of i]
  by (simp add: schedule_interval_eq settings_put_def)

lemma put_settled_last_eq:
  assumes "timer_inv s"
  shows "put_settled (length (puts s)) True (set_update_interval seconds s) =
           s\<lparr>poller := (poller s)\<lparr>update_interval := Num (seconds * 1000),
                                   intervalID := Some (next_timer s)\<rparr>,
             timers := [(next_timer s, timer_delay (Num (seconds * 1000)))],
             next_timer := Suc (next_timer s),
             store := (store s)(settings_key \<mapsto> int_to_string seconds)\<rparr>"
proof -
  have inv: "timer_inv (set_update_interval seconds s)"
    using assms by (simp add: timer_inv_def set_update_interval_def)
  show ?thesis
    using put_settled_True_eq [OF inv, of "length (puts s)"]
    by (simp add: schedule_interval_eq set_update_interval_def settings_put_def remove_at_def)
qed

text \<open>C16: when the settings store confirms an interval of \<open>seconds\<close>, the new timer's
  delay is the interval in milliseconds taken modulo \<open>2 ^ 32\<close> when that lies below
  \<open>2 ^ 31\<close>, and 0 otherwise: the WebIDL conversion of the delay wraps, so from
  2147484 s (about 24.9 days) on the timer does not run at the interval set, and a range
  of intervals polls continuously.\<close>

theorem confirmed_interval_delay_wraps:
  assumes "reachable p s"
  shows "timers (put_settled (length (puts s)) True (set_update_interval seconds s)) =
           [(next_timer s, if seconds * 1000 mod 2 ^ 32 < 2 ^ 31 then seconds * 1000 mod 2 ^ 32 else 0)]"
  using put_settled_last_eq [OF reachable_timer_inv [OF assms], of seconds]
  by (simp add: timer_delay_Num)

theorem confirmed_interval_delay_wraps_witness:
  "timers (put_settled 0 True (set_update_interval 2147483 S1)) = [(2, 2147483000)] \<and>
   timers (put_settled 0 True (set_update_interval 2147484 S1)) = [(2, 0)]"
  using confirmed_interval_delay_wraps [OF reachable_S1 [of sample_parse], of 2147483]
        confirmed_interval_delay_wraps [OF reachable_S1 [of sample_parse], of 2147484]
  by (simp only: S1_eq) simp

text \<open>C23: if \<open>set_update_interval\<close> is called while the initial load of the stored
  interval is pending and the load settles first, the load overwrites the new interval with
  the stored one, and the timer installed when the store confirms the new seconds runs with
  the old stored interval while the store holds the new one.\<close>

theorem load_race_overrides_set_interval:
  assumes "reachable p s" and "load_pending s"
      and "t = put_settled (length (puts s)) True (load_update_interval_settled (set_update_interval seconds s))"
  shows "reachable p t \<and> store t settings_key = Some (int_to_string seconds) \<and>
         get_update_interval t = times_1000 (parseInt (store s settings_key)) \<and>
         timers t = [(next_timer s, timer_delay (times_1000 (parseInt (store s settings_key))))]"
proof -
  let ?s1 = "set_update_interval seconds s"
  let ?s2 = "load_update_interval_settled ?s1"
  have r1: "reachable p ?s1" by (rule reachable.run [OF assms(1) step.call_set_update_interval])
  have "load_pending ?s1" using assms(2) by (simp add: set_update_interval_def)
  then have r2: "reachable p ?s2" by (rule reachable.run [OF r1 step.settings_get_settled])
  have "length (puts s) < length (puts ?s2)"
    by (simp add: set_update_interval_def load_update_interval_settled_def)
  then have "reachable p t" unfolding assms(3) by (rule reachable.run [OF r2 step.settings_put_settled])
  moreover have "timer_inv ?s2" by (rule reachable_timer_inv [OF r2])
  ultimately show ?thesis
    using put_settled_True_eq [of ?s2 "length (puts s)"]
    by (simp add: assms(3) schedule_interval_eq set_update_interval_def load_update_interval_settled_def
                  settings_put_def settings_get_def remove_at_def get_update_interval_def)
qed

abbreviation store60 :: "string \<rightharpoonup> string" where
  "store60 \<equiv> Map.empty(settings_key \<mapsto> ''60'')"

theorem load_race_overrides_set_interval_witness:
  "get_update_interval (put_settled 0 True (load_update_interval_settled
      (set_update_interval 10 (events_start conn0 store60 :: nat sys)))) = Num 60000 \<and>
   timers (put_settled 0 True (load_update_interval_settled
      (set_update_interval 10 (events_start conn0 store60 :: nat sys)))) = [(1, 60000)]"
proof -
  have "parseInt (Some ''60'') = Num 60"
    by (simp add: parseInt_def parseInt_string_def strip_sign_def radix_prefix_def
                  digits_to_nat_def js_whitespace_def)
  then have h: "load_pending (events_start conn0 store60 :: nat sys)"
    "times_1000 (parseInt (store (events_start conn0 store60 :: nat sys) settings_key)) = Num 60000"
    "next_timer (events_start conn0 store60 :: nat sys) = 1"
    "puts (events_start conn0 store60 :: nat sys) = []"
    by (simp_all add: events_start_def events_init_def)
  show ?thesis
    using load_race_overrides_set_interval [OF reachable.start h(1) refl, of sample_parse 10]
    by (simp add: h(2-4) timer_delay_Num)
qed

text \<open>C24: the cache follows the order in which responses arrive, not the order of the ticks:
  when the first tick's responses arrive after the second's, its older data becomes current
  and the newer data previous.\<close>

theorem tick_settled_arrival_order:
  assumes "merge_snapshot p a1 b1 c1 = Inr (sets1, idles1, running1)"
      and "merge_snapshot p a2 b2 c2 = Inr (sets2, idles2, running2)"
  shows "get_cached_events
           (tick_settled p ok 0 (Inr a1) (Inr b1) (Inr c1)
             (tick_settled p ok' 1 (Inr a2) (Inr b2) (Inr c2) s)) = (sets1, sets2)"
  using assms
  by (simp add: tick_settled_def cache_update_settle_success get_cached_events_def
                rotate_cache_def Let_def split: prod.splits)

theorem tick_settled_arrival_order_witness:
  "get_cached_events
     (tick_settled sample_parse (\<lambda>_. True) 0 (Inr sets_r1) (Inr sample_idle) (Inr [])
       (tick_settled sample_parse (\<lambda>_. True) 1 (Inr sets_r1) (Inr sample_idle) (Inr sample_running)
         S1)) =
   ([event_r1\<lparr>detail := Some (sample_detail\<lparr>idle_state := jstr ''IDLE''\<rparr>)\<rparr>], [merged_r1])"
  by (rule tick_settled_arrival_order [OF merge_sample_idle merge_sample_override])

abbreviation T1 :: "nat sys" where
  "T1 \<equiv> tick_settled sample_parse (\<lambda>_. True) 0 (Inr sets_r1) (Inr sample_idle) (Inr sample_running)
          (cache_update S1)"

lemma reachable_T1: "reachable sample_parse T1"
proof -
  have "(1, 0) \<in> set (timers S1)" by (simp only: S1_eq) simp
  then have r: "reachable sample_parse (cache_update S1)"
    by (rule reachable.run [OF reachable_S1 step.timer_tick])
  have "0 < length (inflight (cache_update S1))" by (simp add: cache_update_def)
  then show ?thesis by (rule reachable.run [OF r step.fetch_settled])
qed

lemma T1_calls: "calls T1 = [(0, [merged_r1], [])] \<and> listeners (poller T1) = [0]"
proof -
  have c: "poller (cache_update S1) = poller S1" "calls (cache_update S1) = calls S1"
    by (simp_all add: cache_update_def)
  have l: "listeners (poller S1) = [0]" "current_set_events (poller S1) = []" "calls S1 = []"
    by (simp_all only: S1_eq) simp_all
  have "calls T1 = [(0, [merged_r1], [])]"
    using tick_settled_calls_success [OF merge_sample_override, of "cache_update S1" "\<lambda>_. True" 0]
    unfolding c l by (simp add: detect_changes_def has_changes_def key_alarm_id_def)
  moreover have "listeners (poller T1) = [0]"
  proof -
    obtain m' cs r where e: "cache_update_settle sample_parse (\<lambda>_. True) (Inr sets_r1)
        (Inr sample_idle) (Inr sample_running) (poller (cache_update S1)) = (m', cs, r)"
      by (cases "cache_update_settle sample_parse (\<lambda>_. True) (Inr sets_r1)
        (Inr sample_idle) (Inr sample_running) (poller (cache_update S1))") auto
    have "listeners m' = [0]"
      using cache_update_settle_frame [OF e] unfolding c l by simp
    then show ?thesis by (simp add: tick_settled_def e)
  qed
  ultimately show ?thesis ..
qed

text \<open>C27: in every reachable state each recorded listener invocation went to a registered
  listener, with a current and a previous snapshot between which the detector finds a
  change: listeners are never called for an unchanged snapshot.\<close>

theorem reachable_calls_only_on_change:
  "reachable p s \<Longrightarrow> (f, cur, prev) \<in> set (calls s) \<Longrightarrow>
   f \<in> set (listeners (poller s)) \<and> has_changes (detect_changes cur prev)"
  using reachable_calls_inv [of p s] by (auto simp: calls_inv_def)

theorem reachable_calls_only_on_change_witness:
  "(0::nat) \<in> set (listeners (poller T1)) \<and> has_changes (detect_changes [merged_r1] [])"
  using reachable_calls_only_on_change [OF reachable_T1, of 0 "[merged_r1]" "[]"] T1_calls by simp

text \<open>C28: in every reachable state with a registered listener exactly one interval timer
  runs, and \<open>intervalID\<close> names it: a listener is never left without polling.\<close>

theorem reachable_listener_single_timer:
  assumes "reachable p s" and "f \<in> set (listeners (poller s))"
  shows "\<exists>i d. timers s = [(i, d)] \<and> intervalID (poller s) = Some i"
proof -
  obtain i where i: "intervalID (poller s) = Some i"
    using reachable_poll_inv [OF assms(1)] assms(2) by (auto simp: poll_inv_def)
  then have "map fst (timers s) = [i]"
    using reachable_timer_inv [OF assms(1)] by (simp add: timer_inv_def)
  with i show ?thesis by (cases "timers s") auto
qed

theorem reachable_listener_single_timer_witness:
  "\<exists>i d. timers T1 = [(i, d)] \<and> intervalID (poller T1) = Some i"
  using reachable_listener_single_timer [OF reachable_T1, of 0] T1_calls by simp

text \<open>C29: when the feeds return the same snapshot on two consecutive ticks, and its
  key values are scalars, the second tick calls no listener and leaves the current and the
  previous snapshot equal.\<close>

theorem tick_repeated_snapshot_silent:
  assumes "merge_snapshot p setStatus idleStatus runningStatus = Inr (sets, idles, running)"
      and "scalar_keys sets"
  shows "calls (tick_settled p ok j (Inr setStatus) (Inr idleStatus) (Inr runningStatus)
            (tick_settled p ok i (Inr setStatus) (Inr idleStatus) (Inr runningStatus) s)) =
         calls (tick_settled p ok i (Inr setStatus) (Inr idleStatus) (Inr runningStatus) s) \<and>
         get_cached_events (tick_settled p ok j (Inr setStatus) (Inr idleStatus) (Inr runningStatus)
            (tick_settled p ok i (Inr setStatus) (Inr idleStatus) (Inr runningStatus) s)) =
         (sets, sets)"
proof -
  let ?s1 = "tick_settled p ok i (Inr setStatus) (Inr idleStatus) (Inr runningStatus) s"
  have c1: "current_set_events (poller ?s1) = sets"
    using assms(1)
    by (simp add: tick_settled_def cache_update_settle_success Let_def rotate_cache_def
             split: prod.splits)
  have "\<not> has_changes (detect_changes sets sets)"
    using assms(2) by (rule detect_changes_same_scalar)
  then show ?thesis
    using assms(1) c1
    by (simp add: tick_settled_def cache_update_settle_success Let_def rotate_cache_def
                  get_cached_events_def split: prod.splits)
qed

theorem tick_repeated_snapshot_silent_witness:
  "calls (tick_settled sample_parse (\<lambda>_. True) 0 (Inr sets_r1) (Inr sample_idle) (Inr sample_running)
            (tick_settled sample_parse (\<lambda>_. True) 0 (Inr sets_r1) (Inr sample_idle) (Inr sample_running) S1)) =
   calls (tick_settled sample_parse (\<lambda>_. True) 0 (Inr sets_r1) (Inr sample_idle) (Inr sample_running) S1)"
proof -
  have "scalar_keys [merged_r1]"
    by (simp add: scalar_keys_def change_keys_def key_alarm_id_def key_idle_state_def
                  key_degraded_def)
  then show ?thesis
    using tick_repeated_snapshot_silent [OF merge_sample_override, of "\<lambda>_. True" 0 0 S1] by simp
qed



text \<open>C31: two calls \<open>set_update_interval(a)\<close> and then \<open>set_update_interval(b)\<close>
  whose \<open>settings.put\<close> requests settle in the opposite order leave the store holding
  \<open>a\<close> while the in-memory interval and the running timer use \<open>b\<close>: the persisted
  and the in-memory interval disagree.\<close>

theorem set_interval_puts_out_of_order:
  assumes "reachable p s"
      and "t = put_settled (length (puts s)) True
                 (put_settled (Suc (length (puts s))) True (set_update_interval b (set_update_interval a s)))"
  shows "reachable p t \<and> store t settings_key = Some (int_to_string a) \<and>
         get_update_interval t = Num (b * 1000) \<and>
         timers t = [(Suc (next_timer s), timer_delay (Num (b * 1000)))]"
proof -
  let ?s1 = "set_update_interval b (set_update_interval a s)"
  let ?s2 = "put_settled (Suc (length (puts s))) True ?s1"
  have r1: "reachable p ?s1"
    by (rule reachable.run [OF reachable.run [OF assms(1) step.call_set_update_interval]
                            step.call_set_update_interval])
  have l1: "Suc (length (puts s)) < length (puts ?s1)" by (simp add: set_update_interval_def)
  have r2: "reachable p ?s2" by (rule reachable.run [OF r1 step.settings_put_settled [OF l1]])
  have e2: "?s2 = ?s1\<lparr>poller := (poller ?s1)\<lparr>intervalID := Some (next_timer s)\<rparr>,
             timers := [(next_timer s, timer_delay (Num (b * 1000)))],
             next_timer := Suc (next_timer s),
             store := (store s)(settings_key \<mapsto> int_to_string b),
             puts := puts s @ [a]\<rparr>"
    using put_settled_True_state [OF reachable_timer_inv [OF r1], of "Suc (length (puts s))"]
    by (simp add: set_update_interval_def remove_at_def nth_append)
  have l2: "length (puts s) < length (puts ?s2)" by (simp add: e2)
  have "reachable p t" unfolding assms(2) by (rule reachable.run [OF r2 step.settings_put_settled [OF l2]])
  moreover have "t = ?s2\<lparr>poller := (poller ?s2)\<lparr>intervalID := Some (next_timer ?s2)\<rparr>,
             timers := [(next_timer ?s2, timer_delay (update_interval (poller ?s2)))],
             next_timer := Suc (next_timer ?s2),
             store := (store ?s2)(settings_key \<mapsto> int_to_string (puts ?s2 ! length (puts s))),
             puts := remove_at (length (puts s)) (puts ?s2)\<rparr>"
    unfolding assms(2) by (rule put_settled_True_state [OF reachable_timer_inv [OF r2]])
  ultimately show ?thesis
    unfolding e2 by (simp add: set_update_interval_def get_update_interval_def)
qed

theorem set_interval_puts_out_of_order_witness:
  "store (put_settled 0 True (put_settled 1 True (set_update_interval 20 (set_update_interval 10 (S0 :: nat sys)))))
     settings_key = Some (int_to_string 10) \<and>
   get_update_interval (put_settled 0 True (put_settled 1 True (set_update_interval 20 (set_update_interval 10 (S0 :: nat sys))))) =
     Num 20000 \<and>
   timers (put_settled 0 True (put_settled 1 True (set_update_interval 20 (set_update_interval 10 (S0 :: nat sys))))) =
     [(2, 20000)]"
proof -
  have h: "next_timer (S0 :: nat sys) = 1" "puts (S0 :: nat sys) = []" by (simp_all add: events_start_def events_init_def)
  have r: "reachable sample_parse (S0 :: nat sys)" by (rule reachable.start)
  show ?thesis
    using set_interval_puts_out_of_order [OF r refl, of 20 10]
    by (simp add: h timer_delay_Num)
qed

text \<open>C36: when the stored interval is absent or does not parse as an integer, or when
  \<open>settings.get\<close> fails, the first \<open>add_callback\<close> still starts polling, with the
  delay 0 that \<open>NaN\<close> and \<open>undefined\<close> convert to: the scheduler does not stay
  idle until an interval is set.\<close>

theorem unloaded_interval_polls_without_delay:
  assumes "parseInt (st settings_key) = NaN"
  shows "reachable p (add_callback f (load_update_interval_settled (events_start conn st))) \<and>
         timers (add_callback f (load_update_interval_settled (events_start conn st))) = [(1, 0)] \<and>
         reachable p (add_callback f (load_update_interval_failed (events_start conn st))) \<and>
         timers (add_callback f (load_update_interval_failed (events_start conn st))) = [(1, 0)]"
proof -
  have l: "load_pending (events_start conn st :: 'a sys)" by (simp add: events_start_def events_init_def)
  have r1: "reachable p (add_callback f (load_update_interval_settled (events_start conn st)))"
    by (rule reachable.run [OF reachable.run [OF reachable.start step.settings_get_settled [OF l]]
                              step.call_add_callback])
  have r2: "reachable p (add_callback f (load_update_interval_failed (events_start conn st)))"
    by (rule reachable.run [OF reachable.run [OF reachable.start step.settings_get_failed [OF l]]
                              step.call_add_callback])
  have "timers (add_callback f (load_update_interval_settled (events_start conn st))) = [(1, 0)]"
    using assms by (simp add: sys_eval load_update_interval_settled_def settings_get_def)
  moreover have "timers (add_callback f (load_update_interval_failed (events_start conn st))) = [(1, 0)]"
    by (simp add: sys_eval)
  ultimately show ?thesis using r1 r2 by blast
qed

theorem unloaded_interval_polls_without_delay_witness:
  "timers (add_callback (0::nat) (load_update_interval_settled (events_start conn0 Map.empty))) = [(1, 0)]"
proof -
  have "parseInt (Map.empty settings_key) = NaN"
    by (simp add: parseInt_def parseInt_string_def strip_sign_def radix_prefix_def js_whitespace_def)
  then show ?thesis using unloaded_interval_polls_without_delay [of Map.empty sample_parse "0::nat" conn0]
    by blast
qed

lemma T1_current: "current_set_events (poller T1) = [merged_r1]"
proof -
  have c: "poller (cache_update S1) = poller S1" by (simp add: cache_update_def)
  show ?thesis
    by (simp add: tick_settled_def cache_update_settle_success [OF merge_sample_override] c
                  Let_def rotate_cache_def split: prod.splits)
qed

abbreviation no_sets :: set_status where
  "no_sets \<equiv> \<lparr>st_idle = [], st_degraded = [], st_down = [], st_running = []\<rparr>"

text \<open>C37: a tick whose grouped-events feed has four empty buckets, after a non-empty
  snapshot, publishes the empty snapshot and reports every old event as removed: each
  listener is called once with the empty list and the old snapshot.\<close>

theorem tick_empty_snapshot_notifies_removal:
  assumes "concat_sets setStatus = []"
      and "parse_statuses p idleStatus = Inr idles" and "parse_statuses p runningStatus = Inr running"
      and "current_set_events (poller s) \<noteq> []" and "list_all ok (listeners (poller s))"
  shows "get_cached_events (tick_settled p ok i (Inr setStatus) (Inr idleStatus) (Inr runningStatus) s) =
           ([], current_set_events (poller s)) \<and>
         calls (tick_settled p ok i (Inr setStatus) (Inr idleStatus) (Inr runningStatus) s) =
           calls s @ map (\<lambda>f. (f, [], current_set_events (poller s))) (listeners (poller s))"
proof -
  have m: "merge_snapshot p setStatus idleStatus runningStatus = Inr ([], idles, running)"
    using assms(1-3) by (rule merge_snapshot_empty_sets)
  have hc: "has_changes (detect_changes [] (current_set_events (poller s)))"
    using assms(4) by (simp add: detect_changes_def has_changes_def Let_def differenceBy_filter)
  have "get_cached_events (tick_settled p ok i (Inr setStatus) (Inr idleStatus) (Inr runningStatus) s) =
          ([], current_set_events (poller s))"
    using m hc
    by (simp add: tick_settled_def cache_update_settle_success get_cached_events_def Let_def
                  rotate_cache_def split: prod.splits)
  then show ?thesis using tick_settled_calls_success [OF m hc assms(5)] by simp
qed

theorem tick_empty_snapshot_notifies_removal_witness:
  "get_cached_events (tick_settled sample_parse (\<lambda>_. True) 0 (Inr no_sets) (Inr []) (Inr []) T1) =
     ([], [merged_r1])"
  using tick_empty_snapshot_notifies_removal [of no_sets sample_parse "[]" "[]" "[]" "[]" T1 "\<lambda>_. True" 0]
  by (simp add: concat_sets_def T1_current T1_calls)

subsection \<open>Ticks whose listeners register callbacks\<close>

abbreviation react01 :: "nat \<Rightarrow> nat reaction" where
  "react01 \<equiv> \<lambda>n. if n = 0 then Returns [1] else Returns []"

lemma S1_facts:
  "listeners (poller S1) = [0]" "current_set_events (poller S1) = []" "calls S1 = []"
  "intervalID (poller S1) = Some 1"
  by (simp_all only: S1_eq) simp_all

lemma cache_update_S1:
  "poller (cache_update S1) = poller S1" "calls (cache_update S1) = calls S1"
  "length (inflight (cache_update S1)) = 1"
  by (simp_all add: cache_update_def) (simp only: S1_eq, simp)

lemma tick_live_S1_react01:
  "\<exists>t. tick_settled_live sample_parse react01 0 (Inr sets_r1) (Inr sample_idle) (Inr sample_running)
          (cache_update S1) = Some t \<and>
        reachable sample_parse t \<and> listeners (poller t) = [0, 1]"
proof -
  have hc: "has_changes (detect_changes [merged_r1] [])"
    by (simp add: detect_changes_def has_changes_def key_alarm_id_def)
  have d: "dispatch_live react01 [0] 0 [merged_r1] [] =
             Some ([0, 1], [(0, [merged_r1], []), (1, [merged_r1], [])], None)"
    by (simp add: dispatch_live.simps add_listener_def)
  obtain I R where th: "cache_update_then_live sample_parse react01 (sets_r1, sample_idle, sample_running)
      (poller S1) = Some ((rotate_cache (poller S1) [merged_r1] I R)\<lparr>listeners := [0, 1]\<rparr>,
                          [(0, [merged_r1], []), (1, [merged_r1], [])], None)"
    using hc d merge_sample_override
    by (simp add: cache_update_then_live_def rotate_cache_def S1_facts Let_def
             del: add_callback_listeners)
  let ?t = "(cache_update S1)\<lparr>poller := (rotate_cache (poller S1) [merged_r1] I R)\<lparr>listeners := [0, 1]\<rparr>,
              inflight := remove_at 0 (inflight (cache_update S1)),
              calls := calls (cache_update S1) @ [(0, [merged_r1], []), (1, [merged_r1], [])]\<rparr>"
  have e: "tick_settled_live sample_parse react01 0 (Inr sets_r1) (Inr sample_idle) (Inr sample_running)
          (cache_update S1) = Some ?t"
    by (simp add: tick_settled_live_def cache_update_settle_live_def promise_all3_def cache_update_S1 th)
  have l: "listeners (poller ?t) = [0, 1]" by simp
  have "(1, 0) \<in> set (timers S1)" by (simp only: S1_eq) simp
  then have r: "reachable sample_parse (cache_update S1)"
    by (rule reachable.run [OF reachable_S1 step.timer_tick])
  have "step sample_parse (cache_update S1) ?t"
    by (rule step.fetch_settled_live [OF _ _ e]) (simp_all add: cache_update_S1 S1_facts id_truthy_def)
  then have "reachable sample_parse ?t" by (rule reachable.run [OF r])
  then show ?thesis using e l by blast
qed

text \<open>C25: in the running module, when a tick's responses merge into a snapshot that
  the detector tells apart from the current one and every listener returns normally, the
  tick calls every listener of the final array once, in order, with the new and the old
  snapshot, including the callbacks that listeners register during the dispatch; the array
  only grows, by appending them.\<close>

theorem tick_live_calls_every_listener:
  assumes t: "tick_settled_live p react i (Inr a) (Inr b) (Inr c) s = Some t"
      and m: "merge_snapshot p a b c = Inr (sets, idles, running)"
      and h: "has_changes (detect_changes sets (current_set_events (poller s)))"
      and all: "\<forall>f. \<exists>gs. react f = Returns gs"
  shows "\<exists>new. listeners (poller t) = listeners (poller s) @ new \<and>
           calls t = calls s @ map (\<lambda>f. (f, sets, current_set_events (poller s))) (listeners (poller t))"
proof -
  obtain m' cs r where
    e: "cache_update_settle_live p react (Inr a) (Inr b) (Inr c) (poller s) = Some (m', cs, r)" and
    tt: "t = s\<lparr>poller := m', inflight := remove_at i (inflight s), calls := calls s @ cs\<rparr>"
    using t by (auto simp: tick_settled_live_def)
  obtain ls' where
    d: "dispatch_live react (listeners (poller s)) 0 sets (current_set_events (poller s)) = Some (ls', cs, r)"
    and m': "m' = (rotate_cache (poller s) sets idles running)\<lparr>listeners := ls'\<rparr>"
    using e m h
    by (auto simp: cache_update_settle_live_def promise_all3_def cache_update_then_live_def
                   rotate_cache_def Let_def bind_eq_Some_conv)
  show ?thesis
    using dispatch_live_all_return [OF d all] tt m' by (auto simp: rotate_cache_def)
qed

theorem tick_live_calls_every_listener_witness:
  "\<exists>t. tick_settled_live sample_parse react01 0 (Inr sets_r1) (Inr sample_idle) (Inr sample_running)
          (cache_update S1) = Some t \<and>
        listeners (poller t) = [0, 1] \<and> calls t = [(0, [merged_r1], []), (1, [merged_r1], [])]"
proof -
  obtain t where e: "tick_settled_live sample_parse react01 0 (Inr sets_r1) (Inr sample_idle)
                       (Inr sample_running) (cache_update S1) = Some t"
    and l: "listeners (poller t) = [0, 1]"
    using tick_live_S1_react01 by blast
  have hc: "has_changes (detect_changes [merged_r1] (current_set_events (poller (cache_update S1))))"
    by (simp add: cache_update_S1 S1_facts detect_changes_def has_changes_def key_alarm_id_def
             del: add_callback_listeners)
  have all: "\<forall>f. \<exists>gs. react01 f = Returns gs" by simp
  have "calls t = calls (cache_update S1) @
          map (\<lambda>f. (f, [merged_r1], current_set_events (poller (cache_update S1)))) (listeners (poller t))"
    using tick_live_calls_every_listener [OF e merge_sample_override hc all] by blast
  then show ?thesis
    using e l by (simp add: cache_update_S1 S1_facts del: add_callback_listeners)
qed

end
