(* ===== verification/Abstract.thy ===== *)
theory Abstract
  imports Poller
begin

text \<open>
  Two abstract views of the module that the specification describes, and the refinement
  lemmas that the detailed model implements them.
  \<^item> The snapshot history: the cache accessor promises that \<open>current\<close> and
    \<open>previous\<close> are the two most recently rotated snapshots (section 8). The outcome
    of a tick is the settled result of its three requests; \<open>snapshot_of\<close> is the
    snapshot it publishes, if any, and \<open>history\<close> is the list of published
    snapshots, newest first, ending with the two the cache held at the start.
  \<^item> The scheduler state machine of section 4.4: \<open>Idle\<close> (no timer) and
    \<open>Scheduled\<close> with a period, where the machine never returns to \<open>Idle\<close>.
    \<open>sched_of\<close> reads that state off the browser's timers.
\<close>

subsection \<open>Snapshot history\<close>

type_synonym outcome = "(js_error + set_status) \<times> (js_error + string status list) \<times> (js_error + string status list)"

definition snapshot_of :: "json_parser \<Rightarrow> outcome \<Rightarrow> event list option" where
  "snapshot_of p out =
     (case out of (a, b, c) \<Rightarrow>
       (case promise_all3 a b c of
          Inl _ \<Rightarrow> None
        | Inr (x, y, z) \<Rightarrow> (case merge_snapshot p x y z of Inl _ \<Rightarrow> None | Inr (sets, _, _) \<Rightarrow> Some sets)))"

definition settle :: "json_parser \<Rightarrow> ('l \<Rightarrow> bool) \<Rightarrow> 'l sys \<Rightarrow> outcome \<Rightarrow> 'l sys" where
  "settle p ok s out = (case out of (a, b, c) \<Rightarrow> tick_settled p ok 0 a b c s)"

definition history :: "json_parser \<Rightarrow> 'l sys \<Rightarrow> outcome list \<Rightarrow> event list list" where
  "history p s os = rev (List.map_filter (snapshot_of p) os) @ [fst (get_cached_events s), snd (get_cached_events s)]"

lemma settle_cached:
  "get_cached_events (settle p ok s out) =
     (case snapshot_of p out of None \<Rightarrow> get_cached_events s | Some sets \<Rightarrow> (sets, fst (get_cached_events s)))"
  by (auto simp: settle_def snapshot_of_def tick_settled_def cache_update_settle_def cache_update_then_def
                 get_cached_events_def rotate_cache_def Let_def
           split: prod.splits sum.splits)

lemma nth_append_two:
  "i < length xs + 2 \<Longrightarrow> (xs @ [a, b]) ! i = (xs @ [a, b, c]) ! i"
  by (auto simp: nth_append nth_Cons')

text \<open>C32: after any sequence of tick settlements, successful or not, the pair returned by
  \<open>get_cached_events\<close> is the two newest entries of the history of published snapshots:
  failed ticks publish nothing, and each successful tick pushes its merged snapshot.\<close>

theorem ticks_cache_is_history:
  "get_cached_events (foldl (settle p ok) s os) = (history p s os ! 0, history p s os ! 1)"
proof (induction os arbitrary: s)
  case Nil
  then show ?case by (simp add: history_def)
next
  case (Cons out os)
  show ?case
  proof (cases "snapshot_of p out")
    case None
    then show ?thesis
      using Cons.IH [of "settle p ok s out"] by (simp add: history_def settle_cached map_filter_def)
  next
    case (Some sets)
    have "history p (settle p ok s out) os ! i = history p s (out # os) ! i" if "i < 2" for i
      using Some that nth_append_two [of i, of "rev (List.map_filter (snapshot_of p) os)" sets
                                  "fst (get_cached_events s)" "snd (get_cached_events s)"]
      by (simp add: history_def settle_cached map_filter_def)
    then show ?thesis using Cons.IH [of "settle p ok s out"] by simp
  qed
qed

subsection \<open>Scheduler state machine\<close>

datatype sched = Idle | Scheduled int

definition sched_of :: "'l sys \<Rightarrow> sched" where
  "sched_of s = (if intervalID (poller s) = None then Idle else Scheduled (snd (hd (timers s))))"

inductive sched_step :: "sched \<Rightarrow> sched \<Rightarrow> bool" where
  stay: "sched_step q q"
| start: "sched_step Idle (Scheduled d)"
| reschedule: "sched_step (Scheduled d) (Scheduled d')"

lemma sched_of_schedule_interval:
  "timer_inv s \<Longrightarrow>
   sched_of (schedule_interval s) = Scheduled (timer_delay (update_interval (poller s)))"
  by (simp add: sched_of_def schedule_interval_eq)

lemma sched_step_Scheduled [simp]: "sched_step q (Scheduled d)"
  by (cases q) (auto intro: sched_step.intros)

lemma sched_step_Idle_iff [simp]: "sched_step q Idle \<longleftrightarrow> q = Idle"
  by (auto elim: sched_step.cases intro: sched_step.intros)

lemma sched_of_eqI:
  "intervalID (poller t) = intervalID (poller s) \<Longrightarrow> timers t = timers s \<Longrightarrow> sched_of t = sched_of s"
  by (simp add: sched_of_def)

lemma sched_stay: "sched_of t = sched_of s \<Longrightarrow>
   sched_step (sched_of s) (sched_of t) \<and>
   (sched_of t \<noteq> sched_of s \<longrightarrow> sched_of t = Scheduled d)"
  by (simp add: sched_step.stay)

lemma sched_scheduled: "sched_of t = Scheduled d \<Longrightarrow>
   sched_step (sched_of s) (sched_of t) \<and>
   (sched_of t \<noteq> sched_of s \<longrightarrow> sched_of t = Scheduled d)"
  by simp

text \<open>C33: every step from a reachable state is a step of the specification's scheduler
  state machine (stay, \<open>Idle\<close> to \<open>Scheduled\<close>, or \<open>Scheduled\<close> to
  \<open>Scheduled\<close>; never back to \<open>Idle\<close>), and whenever the scheduled state changes,
  its period is the delay of the in-memory interval at that moment.\<close>

theorem step_refines_scheduler:
  assumes "reachable p s" and "step p s t"
  shows "sched_step (sched_of s) (sched_of t) \<and>
         (sched_of t \<noteq> sched_of s \<longrightarrow> sched_of t = Scheduled (timer_delay (update_interval (poller t))))"
  using assms(2) reachable_timer_inv [OF assms(1)]
proof (induction rule: step.induct)
  case (fetch_settled_live i s react r_set r_idle r_running t)
  show ?case
    using tick_settled_live_frame [OF fetch_settled_live.hyps(3)]
    by (intro sched_stay sched_of_eqI) simp_all
next
  case (timer_tick tm s)
  show ?case by (rule sched_stay, rule sched_of_eqI) (simp_all add: cache_update_def)
next
  case (fetch_settled i s ok r_set r_idle r_running)
  obtain m' cs r where e: "cache_update_settle p ok r_set r_idle r_running (poller s) = (m', cs, r)"
    by (cases "cache_update_settle p ok r_set r_idle r_running (poller s)") auto
  show ?case
    by (rule sched_stay, rule sched_of_eqI)
       (simp_all add: tick_settled_def e cache_update_settle_frame [OF e])
next
  case (call_add_callback s f)
  let ?s1 = "s\<lparr>poller := (poller s)\<lparr>listeners := add_listener (listeners (poller s)) f\<rparr>\<rparr>"
  have inv1: "timer_inv ?s1" using call_add_callback.prems by (simp add: timer_inv_def)
  show ?case
  proof (cases "id_truthy (intervalID (poller s))")
    case True
    then have "add_callback f s = ?s1" by (simp add: add_callback_def Let_def)
    then show ?thesis by (intro sched_stay sched_of_eqI) simp_all
  next
    case False
    then have "add_callback f s = schedule_interval ?s1" by (simp add: add_callback_def Let_def)
    then show ?thesis
      by (intro sched_scheduled) (simp add: sched_of_schedule_interval [OF inv1])
  qed
next
  case (call_set_update_interval s seconds)
  show ?case by (rule sched_stay, rule sched_of_eqI) (simp_all add: set_update_interval_def)
next
  case (settings_put_settled i s ok)
  show ?case
  proof (cases ok)
    case True
    then show ?thesis
      using put_settled_True_eq [OF settings_put_settled.prems]
      by (intro sched_scheduled)
         (simp add: sched_of_schedule_interval settings_put_def)
  next
    case False
    then show ?thesis
      by (intro sched_stay sched_of_eqI) (simp_all add: put_settled_def Let_def)
  qed
next
  case (settings_get_settled s)
  show ?case
    by (rule sched_stay, rule sched_of_eqI) (simp_all add: load_update_interval_settled_def)
next
  case (settings_get_failed s)
  show ?case by (rule sched_stay, rule sched_of_eqI) simp_all
next
  case (connection_changed s c)
  show ?case by (rule sched_stay, rule sched_of_eqI) simp_all
qed

theorem step_refines_scheduler_witness:
  "sched_of S0 = Idle \<and> sched_of S1 = Scheduled (timer_delay (update_interval (poller S1)))"
proof -
  have st: "step sample_parse S0 S1" by (rule step.call_add_callback)
  have r: "reachable sample_parse S0" by (rule reachable.start)
  have "sched_of S0 = Idle" by (simp add: sched_of_def events_start_def events_init_def)
  moreover have "sched_of S1 \<noteq> Idle" by (simp only: S1_eq) (simp add: sched_of_def)
  ultimately show ?thesis using step_refines_scheduler [OF r st] by auto
qed

end
