(* ===== verification/Merge_Loops.thy ===== *)
theory Merge_Loops
  imports Merge
begin

text \<open>
  The enrichment loops of events.js as the code writes them: index-based \<open>for\<close> loops
  that update the array \<open>sets\<close> in place (lines 89--99 and 103--113). The inner loop
  \<open>for (let x = 0; x < sets.length; x++)\<close> writes \<open>set.detail.idle_state\<close> of
  \<open>sets[x]\<close> (\<open>sets[x := ev]\<close>); the outer loop runs it for each status record.
  They are loops whose termination is not structural, so they are
  \<^theory_text>\<open>partial_function (option)\<close> (\<open>None\<close> is "does not return"). The lemmas
  prove that they always return, and that they compute the structural definitions
  \<open>enrich_with\<close>, \<open>enrich_all\<close> and \<open>enrich_loop\<close> of Merge, on which the rest of
  the development is built.
\<close>

subsection \<open>The loops\<close>

text \<open>The body of the inner loop (lines 93--97 and 107--111).\<close>

definition enrich_body :: "json status \<Rightarrow> event \<Rightarrow> js_error + event" where
  "enrich_body st ev =
     (if same_value (resource_arn ev) (arn st)
      then (case get_prop (data st) ''idle_state'' of
              Inl err \<Rightarrow> Inl err
            | Inr v \<Rightarrow> assign_idle_state ev v)
      else Inr ev)"

text \<open>\<open>for (let x = 0; x < sets.length; x++) { ... }\<close> (lines 92--98 and 106--112).\<close>

partial_function (option) for_sets ::
  "json status \<Rightarrow> event list \<Rightarrow> nat \<Rightarrow> (js_error + event list) option" where
  "for_sets st sets x =
     (if x < length sets
      then (case enrich_body st (sets ! x) of
              Inl err \<Rightarrow> Some (Inl err)
            | Inr ev \<Rightarrow> for_sets st (sets[x := ev]) (Suc x))
      else Some (Inr sets))"

text \<open>\<open>for (let j = 0; j < idles.length; j++) { ... }\<close> (lines 89--99 and 103--113).\<close>

partial_function (option) for_statuses ::
  "json status list \<Rightarrow> event list \<Rightarrow> nat \<Rightarrow> (js_error + event list) option" where
  "for_statuses sts sets j =
     (if j < length sts
      then Option.bind (for_sets (sts ! j) sets 0)
             (\<lambda>r. case r of
                    Inl err \<Rightarrow> Some (Inl err)
                  | Inr sets' \<Rightarrow> for_statuses sts sets' (Suc j))
      else Some (Inr sets))"

text \<open>The guard \<open>if (idles.length) { ... }\<close> around the loops (lines 88--100 and 102--114).\<close>

definition enrich_loop_for :: "json status list \<Rightarrow> event list \<Rightarrow> (js_error + event list) option" where
  "enrich_loop_for sts sets = (if length sts \<noteq> 0 then for_statuses sts sets 0 else Some (Inr sets))"

subsection \<open>The loops return, and compute the structural definitions\<close>

lemma enrich_with_body:
  "enrich_with st (e # es) =
     (case enrich_body st e of
        Inl err \<Rightarrow> Inl err
      | Inr e' \<Rightarrow> (case enrich_with st es of Inl err \<Rightarrow> Inl err | Inr es' \<Rightarrow> Inr (e' # es')))"
  by (simp add: enrich_body_def)

lemma for_sets_eq:
  "x \<le> length sets \<Longrightarrow>
   for_sets st sets x =
     Some (case enrich_with st (drop x sets) of
             Inl err \<Rightarrow> Inl err
           | Inr es \<Rightarrow> Inr (take x sets @ es))"
proof (induction "length sets - x" arbitrary: sets x)
  case 0
  then show ?case by (simp add: for_sets.simps [of st sets x])
next
  case (Suc n)
  then have x: "x < length sets" by simp
  have d: "drop x sets = sets ! x # drop (Suc x) sets" using x by (simp add: Cons_nth_drop_Suc)
  show ?case
  proof (cases "enrich_body st (sets ! x)")
    case (Inl err)
    then show ?thesis using x by (simp add: for_sets.simps [of st sets x] d enrich_with_body del: enrich_with.simps)
  next
    case (Inr e')
    have ih: "for_sets st (sets[x := e']) (Suc x) =
                Some (case enrich_with st (drop (Suc x) sets) of
                        Inl err \<Rightarrow> Inl err
                      | Inr es \<Rightarrow> Inr (take (Suc x) (sets[x := e']) @ es))"
      using Suc.hyps(1) [of "sets[x := e']" "Suc x"] Suc.hyps(2) x by simp
    have t: "take (Suc x) (sets[x := e']) = take x sets @ [e']"
      using x by (simp add: take_Suc_conv_app_nth)
    show ?thesis
      using x Inr ih
      by (simp add: for_sets.simps [of st sets x] d enrich_with_body t del: enrich_with.simps
               split: sum.splits)
  qed
qed

lemma for_sets_0: "for_sets st sets 0 = Some (enrich_with st sets)"
  by (simp add: for_sets_eq split: sum.splits)

lemma for_statuses_eq:
  "j \<le> length sts \<Longrightarrow> for_statuses sts sets j = Some (enrich_all (drop j sts) sets)"
proof (induction "length sts - j" arbitrary: sets j)
  case 0
  then show ?case by (simp add: for_statuses.simps [of sts sets j])
next
  case (Suc n)
  then have j: "j < length sts" by simp
  have d: "drop j sts = sts ! j # drop (Suc j) sts" using j by (simp add: Cons_nth_drop_Suc)
  show ?case
    using j Suc.hyps
    by (simp add: for_statuses.simps [of sts sets j] d for_sets_0 split: sum.splits)
qed

text \<open>C34: the guarded index-based loops that update \<open>sets\<close> in place compute exactly the
  structural enrichment \<open>enrich_loop\<close>: the same events, or the same exception.\<close>

theorem enrich_loop_for_equiv: "enrich_loop_for sts sets = Some (enrich_loop sts sets)"
  by (simp add: enrich_loop_for_def enrich_loop_def for_statuses_eq)

end
