(* ===== verification/Spec2Isabelle.thy ===== *)
theory Spec2Isabelle
  imports Abstract Merge_Loops Dispatch
begin

text \<open>
  \<^bold>\<open>The event cache of aws-media-services-application-mapper.\<close>
  This development models the browser module src/html/js/app/events.js, the only source
  file under src/. It is a polling cache. Every \<open>update_interval\<close> milliseconds a timer
  runs \<open>cache_update\<close>, which:
  \<^item> fetches three feeds: the grouped CloudWatch events in state \<open>set\<close>, and the idle
    and the running channel status records;
  \<^item> merges them into one list of events;
  \<^item> rotates the \<open>current_*\<close> and \<open>previous_*\<close> snapshots;
  \<^item> compares the new set-state snapshot with the previous one;
  \<^item> calls every registered listener when it finds a change.
  The interval is loaded from the settings store when the module starts, and is changed
  through \<open>set_update_interval\<close>. The first \<open>add_callback\<close> starts the timer.

  \<^bold>\<open>Theories and correspondence to the code.\<close>
  \<^descr>[Prelude] The JSON values the feeds carry (\<open>json\<close>, \<open>jsprop\<close>, where \<open>None\<close>
    is \<open>undefined\<close>) and the exceptions of the code as the datatype \<open>js_error\<close>. Also
    \<open>same_value\<close>, the equality lodash and \<open>===\<close> use on freshly parsed values:
    objects and arrays are compared by reference, so two of them are never equal.
  \<^descr>[Js_Runtime] The platform and library functions the module relies on, as the
    code uses them:
    \<^item> property access (\<open>get_prop\<close>, a TypeError on \<open>null\<close>);
    \<^item> lodash \<open>_.differenceBy\<close> (\<open>differenceBy\<close>);
    \<^item> \<open>Number.parseInt\<close> by the steps of ECMAScript (\<open>parseInt_string\<close>), and the
      printing of integers (\<open>int_to_string\<close>);
    \<^item> the WebIDL \<open>long\<close> conversion of a timer delay (\<open>timer_delay\<close>, a 32-bit word);
    \<^item> \<open>Promise.all\<close> over three promises (\<open>promise_all3\<close>).
  \<^descr>[Merge] Lines 65--114, the merge: \<open>parse_statuses\<close> is the two \<open>map\<close>s with
    \<open>JSON.parse\<close>; \<open>concat_sets\<close> is the four \<open>concat\<close>s; \<open>enrich_with\<close>,
    \<open>enrich_all\<close> and \<open>enrich_loop\<close> are the nested \<open>for\<close> loops with their
    \<open>length\<close> guards; \<open>merge_snapshot\<close> is all of it. The abstract specification
    \<open>enrich_spec\<close> gives each event the idle state of the last matching status record.
  \<^descr>[Merge_Loops] Lines 88--114 as the code writes them: index-based \<open>for\<close>
    loops that update \<open>sets[x]\<close> in place (\<open>enrich_body\<close>, \<open>for_sets\<close>,
    \<open>for_statuses\<close>, \<open>enrich_loop_for\<close>). They are
    \<^theory_text>\<open>partial_function (option)\<close>, proved to always return and to equal the
    structural loops of Merge.
  \<^descr>[Detect] Lines 123--136, the three-pass \<open>differenceBy\<close> cascade
    (\<open>detect_changes\<close>) and the notification guard (\<open>has_changes\<close>). They are refined
    against \<open>first_delta\<close> over \<open>change_keys\<close>: the delta of the first key whose
    delta is non-empty.
  \<^descr>[Notify] Lines 137--139 and 184--186: \<open>add_listener\<close>, the duplicate-free
    registry, and \<open>notify_listeners\<close>, the dispatch loop. The loop stops at the first
    listener that throws.
  \<^descr>[Dispatch] Lines 137--139 over the live \<open>listeners\<close> array, when listeners
    call \<open>add_callback\<close> while they are being notified (\<open>dispatch_live\<close>, a
    \<^theory_text>\<open>partial_function (option)\<close>); without such registrations it is
    \<open>notify_listeners\<close>.
  \<^descr>[Poller] The module as a whole:
    \<^item> the variables of lines 7--25 as the record \<open>poller\<close>;
    \<^item> its environment as the record \<open>sys\<close>: browser timers, settings store, current
      connection, requests in flight, pending \<open>settings.put\<close>s, the pending load of line
      174, and the log of listener calls;
    \<^item> \<open>retrieve_for_state\<close>, \<open>retrieve_for_running_status\<close> and \<open>cache_update\<close>
      (lines 27--64);
    \<^item> \<open>rotate_cache\<close> (lines 116--121);
    \<^item> the settlement of a tick, \<open>cache_update_settle\<close> and \<open>tick_settled\<close>: the
      \<open>then\<close> handler and the \<open>catch\<close>. Their \<open>_live\<close> variants use the
      dispatch over the live listener array and return \<open>None\<close> when it never ends;
    \<^item> \<open>load_update_interval_settled\<close> and \<open>load_update_interval_failed\<close> (the
      two ways the \<open>settings.get\<close> of line 148 settles), \<open>set_update_interval\<close> and
      \<open>schedule_interval\<close> (lines 146--168);
    \<^item> the exported API \<open>get_cached_events\<close>, \<open>add_callback\<close>, \<open>put_settled\<close> and
      \<open>get_update_interval\<close> (lines 176--199);
    \<^item> the module-level variables' initial values, \<open>events_init\<close> (lines 7--25), and
      the module start, \<open>events_start\<close>, which issues the interval load of line 174.
    The JavaScript event loop is the inductive relation \<open>step\<close>. In one step, one of
    these happens to completion: a timer fires; a tick's responses arrive; a caller calls
    the API; a settings request settles; the connection changes. \<open>reachable\<close> closes
    \<open>step\<close> over the states reachable from the module start.
  \<^descr>[Abstract] Two abstract views from the specification and their refinement
    lemmas:
    \<^item> the history of published snapshots, whose two newest entries are the cache;
    \<^item> the Idle/Scheduled state machine of the scheduler (\<open>sched_step\<close>), read
      off the timers by \<open>sched_of\<close>.
  \<^descr>[Spec2Isabelle] This header and the liveness property, which spans every
    component.

  \<^bold>\<open>What the lemmas show.\<close>
  \<^item> Merge: \<open>merge_snapshot\<close> refines \<open>enrich_spec\<close>, and running records take
    precedence over idle records. A single unparsable \<open>data\<close> string aborts the whole
    cycle. Fields other than \<open>detail.idle_state\<close> are kept, and scalar key values stay
    scalar. The in-place index loops return exactly the results of the structural
    definitions.
  \<^item> Detect: the cascade equals \<open>first_delta\<close>. Notification happens exactly when
    some key's values differ between the two snapshots. An object-valued idle state
    reports a change on every cycle.
  \<^item> Notify and Poller, the tick:
    \<^item> a successful tick rotates the cache and notifies exactly on change;
    \<^item> a failed request or parse leaves the cache untouched;
    \<^item> each listener is called once, in registration order, and a throwing listener
      stops the dispatch;
    \<^item> concurrent ticks settle in arrival order;
    \<^item> the same snapshot twice in a row notifies no one;
    \<^item> every step leaves the cached pair as it was or rotates it whole: the new
      current snapshot is a merged one and the new previous one is the old current;
    \<^item> an empty grouped feed after a non-empty snapshot reports every old event as
      removed.
  \<^item> Dispatch: without re-entrant registration the live-array loop is the dispatch of
    the tick model. It returns when the callbacks registered come from a finite set. A
    callback registered during a notification is called in the same cycle, and a chain of
    fresh registrations never ends. In the running module (Poller), a tick in which every
    listener returns calls every listener of the final array once, the callbacks
    registered during the dispatch included, and the array only grows; the invariants
    below hold for such ticks too.
  \<^item> Poller, the invariants, by rule induction over \<open>step\<close>:
    \<^item> at most one timer runs, and \<open>intervalID\<close> names it (\<open>timer_inv\<close>);
    \<^item> the registry has no duplicates (\<open>listeners_inv\<close>);
    \<^item> a registered listener implies a running timer (\<open>poll_inv\<close>);
    \<^item> listeners are only called for changed snapshots (\<open>calls_inv\<close>);
    \<^item> timer delays lie in the 32-bit range (\<open>delay_inv\<close>).
  \<^item> Poller, the scheduler and the interval:
    \<^item> a registered listener always has exactly one timer; the first callback starts
      it with delay 0 while the interval is still loading, or when it is absent,
      unparsable, or its load fails;
    \<^item> the persistence round trip through \<open>int_to_string\<close> and \<open>Number.parseInt\<close>;
    \<^item> the delay of a confirmed interval: its milliseconds modulo \<open>2^32\<close>, and 0
      when that is \<open>2^31\<close> or more (from 2147484 s on the interval wraps);
    \<^item> the race in which the late load overrides a newer \<open>set_update_interval\<close>;
    \<^item> two \<open>settings.put\<close>s settling out of order, which leave the store and the
      running interval different.

  \<^item> Abstract: a fold of tick settlements leaves the cache holding the two newest
    published snapshots. Every step of the event loop simulates a step of the scheduler
    state machine, and a new period is always the current interval's delay.
  \<^item> Spec2Isabelle: from every reachable state with a registered listener, one tick
    whose feeds return a changed snapshot delivers it to the listener.

  \<^bold>\<open>Modelling choices and bounds.\<close>
  \<^item> \<open>JSON.parse\<close> is a parameter \<open>json_parse :: string \<Rightarrow> json option\<close>, and every
    theorem holds for every parser. Samples use a small concrete parser.
  \<^item> JavaScript numbers are integers (\<open>jsnum\<close>: \<open>Undefined\<close>, \<open>NaN\<close>, \<open>Num\<close>).
    This is exact for the safe integers below \<open>2^53\<close> that intervals in seconds are;
    \<open>int_to_string\<close> is exact below \<open>10^21\<close>, where JavaScript switches to
    exponent notation.
  \<^item> The timer delay is converted as WebIDL does: modulo \<open>2^32\<close> to a signed 32-bit
    word, negative values read as 0. This is why delays stay in
    \<open>0 .. 2147483647\<close>.
  \<^item> Every loop of the code runs over a finite list. The structural definitions are
    total by construction. The index loops are \<^theory_text>\<open>partial_function (option)\<close>,
    and that they return, with the structural definitions' result, is proved by
    induction on the measure \<open>length - index\<close> (\<open>card - index\<close> for the
    live-array dispatch, over a finite set of callbacks). No fuel is needed; the event loop's unbounded run is the
    relation \<open>step\<close>, not a function.
  \<^item> Listeners are opaque references of a type \<open>'l\<close>. Whether a listener throws is a
    predicate \<open>ok\<close> chosen at each settlement.

  \<^bold>\<open>Not modelled.\<close>
  \<^item> The HTTP transport \<open>app/server\<close> is pure I/O: a response is any value of
    \<open>js_error + payload\<close> chosen when a tick settles.
  \<^item> \<open>console.log\<close> is output only.
  \<^item> \<open>app/connections\<close> and \<open>app/settings\<close> live outside src/. They are modelled
    only as the specification describes them: a current (url, key) pair, and a string
    store whose get and put each succeed or fail. Their code is not available, so nothing
    more of them can be modelled faithfully.
  \<^item> The shape of the grouped response is not checked: a missing bucket
    (\<open>setStatus.idle\<close> undefined) would be a TypeError in \<open>concat\<close>, but the model's
    responses always have the four lists the specification describes.
  \<^item> Listeners re-enter the module only through \<open>add_callback\<close>. The event loop has
    two tick rules: \<open>fetch_settled\<close> dispatches with \<open>notify_listeners\<close> (no
    re-entry), and \<open>fetch_settled_live\<close> dispatches with \<open>dispatch_live\<close>.
    \<open>fetch_settled_live\<close> requires a truthy \<open>intervalID\<close>, which holds in every
    reachable state with a listener. So the nested \<open>add_callback\<close> only registers, and
    \<open>schedule_interval\<close> is not reached. A listener that calls
    \<open>set_update_interval\<close> or \<open>get_cached_events\<close> during dispatch is not modelled.
    Neither call changes what the running loop reads.
  \<^item> Browsers clamp nested timer delays to a minimum of 4 ms; that clamping is not
    modelled.
  \<^item> Aliasing between the \<open>current_*\<close> arrays and the objects handed to listeners is
    not modelled: the module never mutates an array after the rotation.
\<close>

section \<open>Properties spanning the components\<close>

text \<open>C26: from every reachable state in which a listener is registered, the event loop can
  deliver a change to it: the timer, which the invariants guarantee is running, fires; the
  three feeds resolve with a snapshot that merges and differs from the cached one; and the
  listener is then called with the merged and the cached snapshot. This needs the timer
  invariant, the merge, the detector and the dispatch to work together.\<close>

theorem change_reaches_listener:
  assumes "reachable p s" and "f \<in> set (listeners (poller s))"
      and "merge_snapshot p setStatus idleStatus runningStatus = Inr (sets, idles, running)"
      and "has_changes (detect_changes sets (current_set_events (poller s)))"
      and "list_all ok (listeners (poller s))"
  shows "\<exists>t. (step p)\<^sup>*\<^sup>* s t \<and> (f, sets, current_set_events (poller s)) \<in> set (calls t)"
proof -
  have "listeners (poller s) \<noteq> []" using assms(2) by auto
  then obtain tm where "tm \<in> set (timers s)"
    using reachable_listener_timer [OF assms(1)] by blast
  then have s1: "step p s (cache_update s)" by (rule step.timer_tick)
  let ?i = "length (inflight s)"
  let ?t = "tick_settled p ok ?i (Inr setStatus) (Inr idleStatus) (Inr runningStatus) (cache_update s)"
  have "?i < length (inflight (cache_update s))" by (simp add: cache_update_def)
  then have s2: "step p (cache_update s) ?t" by (rule step.fetch_settled)
  have p: "poller (cache_update s) = poller s" "calls (cache_update s) = calls s"
    by (simp_all add: cache_update_def)
  have "calls ?t = calls s @ map (\<lambda>g. (g, sets, current_set_events (poller s))) (listeners (poller s))"
    using tick_settled_calls_success [of p setStatus idleStatus runningStatus sets idles running
                                        "cache_update s" ok ?i] assms(3-5)
    by (simp add: p)
  moreover have "(step p)\<^sup>*\<^sup>* s ?t"
    using s1 s2 by (rule converse_rtranclp_into_rtranclp [OF _ r_into_rtranclp])
  ultimately show ?thesis
    using assms(2) by (intro exI [of _ ?t]) simp
qed

theorem change_reaches_listener_witness:
  "\<exists>t. (step sample_parse)\<^sup>*\<^sup>* S1 t \<and> (0, [merged_r1], []) \<in> set (calls t)"
proof -
  have l: "listeners (poller S1) = [0]" "current_set_events (poller S1) = []"
    by (simp_all only: S1_eq) simp_all
  have "has_changes (detect_changes [merged_r1] (current_set_events (poller S1)))"
    unfolding l by (simp add: detect_changes_def has_changes_def key_alarm_id_def)
  moreover have "list_all (\<lambda>_. True) (listeners (poller S1))" unfolding l by simp
  moreover have "0 \<in> set (listeners (poller S1))" unfolding l by simp
  ultimately show ?thesis
    using change_reaches_listener [OF reachable_S1 _ merge_sample_override, of 0 "\<lambda>_. True"]
    unfolding l by blast
qed

end
